theory Spec2Isabelle
  imports Main
begin

unbundle bit_operations_syntax

section \<open>Bytes and the Python primitives used by the client\<close>

text \<open>
  The client of \<^verbatim>\<open>pssh/ssh2_client.py\<close> is modelled function by function. Python
  names that start with an underscore are written with the prefix \<open>priv_\<close>
  (\<^verbatim>\<open>_read_output\<close> is \<open>priv_read_output\<close>), since an Isabelle name starts with a letter.
  Byte strings are \<open>char list\<close>.
\<close>

type_synonym bytes = string

definition LIBSSH2_ERROR_EAGAIN :: int where
  "LIBSSH2_ERROR_EAGAIN = - 37"

text \<open>\<^verbatim>\<open>bytes.strip()\<close>: removes leading and trailing ASCII whitespace.\<close>

definition is_space :: "char \<Rightarrow> bool" where
  "is_space c = (c = CHR '' '' \<or> c = CHR 0x09 \<or> c = CHR 0x0A \<or> c = CHR 0x0B
     \<or> c = CHR 0x0C \<or> c = CHR 0x0D)"

definition strip :: "bytes \<Rightarrow> bytes" where
  "strip s = rev (dropWhile is_space (rev (dropWhile is_space s)))"

text \<open>
  \<^verbatim>\<open>s.find(sub, start)\<close>: the lowest index \<open>i \<ge> start\<close> at which \<open>sub\<close> occurs in
  \<open>s\<close>, or \<open>-1\<close>.
\<close>

fun py_find_aux :: "bytes \<Rightarrow> bytes \<Rightarrow> nat \<Rightarrow> int" where
  "py_find_aux sub [] i = (if sub = [] then int i else - 1)"
| "py_find_aux sub (c # cs) i =
     (if take (length sub) (c # cs) = sub then int i else py_find_aux sub cs (Suc i))"

definition py_find :: "bytes \<Rightarrow> bytes \<Rightarrow> nat \<Rightarrow> int" where
  "py_find s sub start =
     (if length s < start then - 1 else py_find_aux sub (drop start s) start)"

text \<open>\<^verbatim>\<open>s[a:b]\<close> for non-negative \<open>a\<close> and \<open>b\<close>.\<close>

definition slice :: "bytes \<Rightarrow> nat \<Rightarrow> nat \<Rightarrow> bytes" where
  "slice s a b = take (b - a) (drop a s)"

lemma py_find_aux_ge: "0 \<le> py_find_aux sub s i \<Longrightarrow> int i \<le> py_find_aux sub s i"
  by (induction s arbitrary: i) (auto split: if_splits, force)

lemma py_find_ge: "0 \<le> py_find s sub start \<Longrightarrow> int start \<le> py_find s sub start"
  unfolding py_find_def by (auto split: if_splits dest: py_find_aux_ge)

section \<open>The output demultiplexer\<close>

text \<open>
  One result of \<^verbatim>\<open>read_func()\<close> is a pair \<open>(_size, _data)\<close>. The channel is a script:
  the list of the results its successive reads return; a channel whose script is
  used up is at end of stream (a read returns size \<open>0\<close>).
\<close>

type_synonym read_result = "int \<times> bytes"

definition chunk :: "bytes \<Rightarrow> read_result" where
  "chunk d = (int (length d), d)"

definition eagain_read :: read_result where
  "eagain_read = (LIBSSH2_ERROR_EAGAIN, [])"

text \<open>
  The loop \<^verbatim>\<open>while _pos < _size\<close> (lines 201-212) over one chunk. It returns the lines
  it yields, in order, and the remainder it leaves.
\<close>

function scan_chunk :: "bytes \<Rightarrow> nat \<Rightarrow> bytes \<Rightarrow> nat \<Rightarrow> bytes \<Rightarrow> bytes list \<times> bytes" where
  "scan_chunk sep sz data pos remainder =
     (if pos < sz then
        (if 0 < py_find (take sz data) sep pos then
           (if 0 < length remainder then
              (case scan_chunk sep sz data pos [] of
                 (ys, r) \<Rightarrow>
                   ((remainder @ strip (slice data pos (nat (py_find (take sz data) sep pos)))) # ys, r))
            else
              (case scan_chunk sep sz data (nat (py_find (take sz data) sep pos) + 1) remainder of
                 (ys, r) \<Rightarrow>
                   (strip (slice data pos (nat (py_find (take sz data) sep pos))) # ys, r)))
         else ([], remainder @ drop pos data))
      else ([], remainder))"
  by pat_completeness auto
termination
proof (relation "measure (\<lambda>(sep, sz, data, pos, remainder).
          2 * (sz - pos) + (if remainder = [] then 0 else 1))", goal_cases)
  case 1
  show ?case by simp
next
  case (2 sep sz data pos remainder)
  then show ?case by simp
next
  case (3 sep sz data pos remainder)
  then have "int pos \<le> py_find (take sz data) sep pos"
    by (intro py_find_ge) simp
  with 3 show ?case by auto
qed

declare scan_chunk.simps [simp del]

text \<open>
  The loop \<^verbatim>\<open>while _size > 0\<close> (lines 199-214): the head of the list is the current
  \<open>(_size, _data)\<close>, the tail what the later reads return.
\<close>

fun read_chunks :: "bytes \<Rightarrow> bytes \<Rightarrow> read_result list \<Rightarrow> bytes list" where
  "read_chunks sep remainder [] = []"
| "read_chunks sep remainder ((sz, data) # rs) =
     (if 0 < sz then
        (case scan_chunk sep (nat sz) data 0 remainder of
           (ys, r) \<Rightarrow> ys @ read_chunks sep r rs)
      else [])"

text \<open>The loop \<^verbatim>\<open>while _size == LIBSSH2_ERROR_EAGAIN\<close> (lines 194-198), on the first read only.\<close>

fun skip_eagain :: "read_result list \<Rightarrow> read_result list" where
  "skip_eagain [] = []"
| "skip_eagain ((sz, data) # rs) =
     (if sz = LIBSSH2_ERROR_EAGAIN then skip_eagain rs else (sz, data) # rs)"

definition priv_read_output :: "bytes \<Rightarrow> read_result list \<Rightarrow> bytes list" where
  "priv_read_output LINESEP rs = read_chunks LINESEP [] (skip_eagain rs)"


section \<open>Exceptions, engine replies and the operation pump\<close>

text \<open>
  An exception is a value. The first six constructors are the exceptions of the protocol
  engine (\<^verbatim>\<open>ssh2.exceptions\<close>, and \<open>OtherError\<close> for any other exception), the others
  the client's own (\<^verbatim>\<open>pssh.exceptions\<close>) with the argument tuple they are raised with,
  and Python's \<^verbatim>\<open>IndexError\<close> and \<^verbatim>\<open>IOError\<close>.
\<close>

datatype error =
    AuthenticationError
  | AgentError
  | SessionHandshakeError
  | SFTPHandleError
  | SFTPIOError_ssh2
  | OtherError
  | AuthenticationException "arg list"
  | ConnectionErrorException "arg list"
  | SessionError "arg list"
  | SFTPError "arg list"
  | SFTPIOError "arg list"
  | IndexError
  | IOError
and arg = S string | I int | E error

text \<open>What one call of an engine function does: it returns a value or raises.\<close>

datatype 'a ret = Ret 'a | Raise error

text \<open>
  \<^verbatim>\<open>_eagain(func, *args)\<close> (lines 229-234). The replies of the engine to the successive
  invocations of \<open>func\<close> are a script. The pump returns the first reply that is not the
  would-block code; an exception propagates. \<open>None\<close>: the script ended while every reply
  was would-block, so the pump is still waiting.
\<close>

fun priv_eagain :: "int ret list \<Rightarrow> int ret option" where
  "priv_eagain [] = None"
| "priv_eagain (r # rs) =
     (if r = Ret LIBSSH2_ERROR_EAGAIN then priv_eagain rs else Some r)"

section \<open>Authentication\<close>

record client =
  host :: string
  user :: string
  password :: "string option"
  port :: int
  pkey :: "string option"
  num_retries :: int
  allow_agent :: bool

text \<open>
  The authentication calls of the engine, with their arguments:
  \<^verbatim>\<open>userauth_publickey_fromfile(user, pub_file, key, passphrase)\<close>, \<^verbatim>\<open>agent_auth(user)\<close>
  and \<^verbatim>\<open>userauth_password(user, password)\<close>. The engine is a function that gives the
  script of replies for each call.
\<close>

datatype auth_call =
    Userauth_publickey_fromfile string string string string
  | Agent_auth string
  | Userauth_password string string

type_synonym auth_engine = "auth_call \<Rightarrow> int ret list"

text \<open>
  An authentication function returns the engine calls it attempted, in order (one entry
  for each attempt, whatever the number of would-block retries), and its outcome:
  \<open>Some (Inr ())\<close> when it returns, \<open>Some (Inl e)\<close> when it raises \<open>e\<close>.
\<close>

type_synonym auth_result = "auth_call list \<times> (error + unit) option"

definition passphrase :: "client \<Rightarrow> string" where
  "passphrase c = (case password c of None \<Rightarrow> [] | Some p \<Rightarrow> p)"

text \<open>\<^verbatim>\<open>_pkey_auth\<close> (lines 108-117), for \<^verbatim>\<open>self.pkey = pk\<close>; the pump's value is dropped.\<close>

definition priv_pkey_auth :: "client \<Rightarrow> string \<Rightarrow> auth_engine \<Rightarrow> auth_result" where
  "priv_pkey_auth c pk eng =
     (let pub_file = pk @ ''.pub'';
          call = Userauth_publickey_fromfile (user c) pub_file pk (passphrase c)
      in ([call],
          case priv_eagain (eng call) of
            None \<Rightarrow> None
          | Some (Raise e) \<Rightarrow> Some (Inl e)
          | Some (Ret v) \<Rightarrow> Some (Inr ())))"

text \<open>
  \<^verbatim>\<open>_identity_auth\<close> (lines 119-143): the loop over the identity files that remain.
  \<open>isfile\<close> is \<^verbatim>\<open>os.path.isfile\<close>.
\<close>

fun priv_identity_auth ::
  "client \<Rightarrow> (string \<Rightarrow> bool) \<Rightarrow> auth_engine \<Rightarrow> string list \<Rightarrow> auth_result" where
  "priv_identity_auth c isfile eng [] =
     ([], Some (Inl (AuthenticationException [S ''No authentication methods succeeded''])))"
| "priv_identity_auth c isfile eng (identity_file # rest) =
     (if \<not> isfile identity_file then priv_identity_auth c isfile eng rest
      else
        (let pub_file = identity_file @ ''.pub'';
             call = Userauth_publickey_fromfile (user c) pub_file identity_file (passphrase c)
         in case priv_eagain (eng call) of
              None \<Rightarrow> ([call], None)
            | Some (Raise e) \<Rightarrow>
                (case priv_identity_auth c isfile eng rest of (tr, r) \<Rightarrow> (call # tr, r))
            | Some (Ret v) \<Rightarrow> ([call], Some (Inr ()))))"

text \<open>\<^verbatim>\<open>_password_auth\<close> (lines 168-171), for \<^verbatim>\<open>self.password = pw\<close>.\<close>

definition priv_password_auth :: "client \<Rightarrow> string \<Rightarrow> auth_engine \<Rightarrow> auth_result" where
  "priv_password_auth c pw eng =
     (let call = Userauth_password (user c) pw
      in ([call],
          case priv_eagain (eng call) of
            None \<Rightarrow> None
          | Some (Raise e) \<Rightarrow> Some (Inl e)
          | Some (Ret v) \<Rightarrow>
              (if v \<noteq> 0 then Some (Inl (AuthenticationException [S ''Password authentication failed'']))
               else Some (Inr ()))))"

text \<open>
  Lines 160-166 of \<^verbatim>\<open>auth\<close>: the identity files, then the password when
  \<^verbatim>\<open>_identity_auth\<close> raised \<^verbatim>\<open>AuthenticationException\<close> and a password is set.
\<close>

definition auth_identity_password ::
  "client \<Rightarrow> string list \<Rightarrow> (string \<Rightarrow> bool) \<Rightarrow> auth_engine \<Rightarrow> auth_result" where
  "auth_identity_password c IDENTITIES isfile eng =
     (case priv_identity_auth c isfile eng IDENTITIES of
        (tr, Some (Inl (AuthenticationException a))) \<Rightarrow>
          (case password c of
             None \<Rightarrow> (tr, Some (Inl (AuthenticationException a)))
           | Some pw \<Rightarrow>
               (case priv_password_auth c pw eng of (tr', r) \<Rightarrow> (tr @ tr', r)))
      | (tr, r) \<Rightarrow> (tr, r))"

text \<open>
  \<^verbatim>\<open>auth\<close> (lines 145-166). \<^verbatim>\<open>agent_auth\<close> is called once, outside the pump: its outcome
  is the first reply of its script.
\<close>

definition auth ::
  "client \<Rightarrow> string list \<Rightarrow> (string \<Rightarrow> bool) \<Rightarrow> auth_engine \<Rightarrow> auth_result" where
  "auth c IDENTITIES isfile eng =
     (case pkey c of
        Some pk \<Rightarrow> priv_pkey_auth c pk eng
      | None \<Rightarrow>
          (if allow_agent c then
             (case eng (Agent_auth (user c)) of
                [] \<Rightarrow> ([Agent_auth (user c)], None)
              | Raise e # rs \<Rightarrow>
                  (if e = AuthenticationError \<or> e = AgentError then
                     (case auth_identity_password c IDENTITIES isfile eng of
                        (tr, r) \<Rightarrow> (Agent_auth (user c) # tr, r))
                   else ([Agent_auth (user c)], Some (Inl e)))
              | Ret v # rs \<Rightarrow> ([Agent_auth (user c)], Some (Inr ())))
           else auth_identity_password c IDENTITIES isfile eng))"

text \<open>
  \<^verbatim>\<open>_init\<close> (lines 77-91): the handshake, whose outcome is \<open>hs\<close>, then \<^verbatim>\<open>auth\<close>; the
  engine's \<^verbatim>\<open>SessionHandshakeError\<close> and \<^verbatim>\<open>AuthenticationError\<close> are wrapped.
\<close>

definition priv_init ::
  "client \<Rightarrow> int ret \<Rightarrow> string list \<Rightarrow> (string \<Rightarrow> bool) \<Rightarrow> auth_engine \<Rightarrow> (error + unit) option" where
  "priv_init c hs IDENTITIES isfile eng =
     (case hs of
        Raise e \<Rightarrow>
          (if e = SessionHandshakeError then
             Some (Inl (SessionError [S ''Error connecting to host %s:%s - %s'', S (host c), I (port c), E e]))
           else Some (Inl e))
      | Ret v \<Rightarrow>
          (case snd (auth c IDENTITIES isfile eng) of
             None \<Rightarrow> None
           | Some (Inl e) \<Rightarrow>
               (if e = AuthenticationError then
                  Some (Inl (AuthenticationException
                    [S ''Authentication error while connecting to %s:%s - %s'', S (host c), I (port c), E e]))
                else Some (Inl e))
           | Some (Inr u) \<Rightarrow> Some (Inr ())))"


section \<open>Connecting\<close>

text \<open>\<^verbatim>\<open>str(n)\<close> for an integer.\<close>

function nat_str :: "nat \<Rightarrow> string" where
  "nat_str n =
     (if n < 10 then [''0123456789'' ! n]
      else nat_str (n div 10) @ [''0123456789'' ! (n mod 10)])"
  by pat_completeness auto
termination
  by (relation "measure (\<lambda>n. n)") auto

declare nat_str.simps [simp del]

definition int_str :: "int \<Rightarrow> string" where
  "int_str i = (if i < 0 then ''-'' @ nat_str (nat (- i)) else nat_str (nat i))"

text \<open>
  A socket error is its argument tuple \<^verbatim>\<open>ex.args\<close>; an operating system error has the
  arguments \<^verbatim>\<open>(errno, strerror)\<close>.
\<close>

datatype sockarg = SockInt int | SockStr string

type_synonym sock_error = "sockarg list"

definition sockarg_str :: "sockarg \<Rightarrow> string" where
  "sockarg_str a = (case a of SockInt i \<Rightarrow> int_str i | SockStr s \<Rightarrow> s)"

text \<open>The format string of the message of lines 104-106.\<close>

definition connect_error_format :: string where
  "connect_error_format =
     ''Error connecting to host '' @ [CHR 0x27] @ ''%s:%s'' @ [CHR 0x27] @ '' - %s - retry %s/%s''"

text \<open>
  \<^verbatim>\<open>_connect\<close> (lines 93-106). \<open>outcomes k\<close> is what \<^verbatim>\<open>sock.connect\<close> does when the call
  is made with \<^verbatim>\<open>retries = k\<close>: \<open>None\<close> when it connects, \<open>Some args\<close> when it raises a
  socket error. The result is the number of calls of \<^verbatim>\<open>sock.connect\<close> made, with the
  outcome.
\<close>

function priv_connect ::
  "client \<Rightarrow> (int \<Rightarrow> sock_error option) \<Rightarrow> int \<Rightarrow> nat \<times> (error + unit)" where
  "priv_connect c outcomes retries =
     (case outcomes retries of
        None \<Rightarrow> (1, Inr ())
      | Some args \<Rightarrow>
          (if retries < num_retries c then
             (case priv_connect c outcomes (retries + 1) of (n, r) \<Rightarrow> (Suc n, r))
           else
             (case (if 1 < length args then drop 1 args else args) of
                [] \<Rightarrow> (1, Inl IndexError)
              | error_type # rest \<Rightarrow>
                  (1, Inl (ConnectionErrorException
                     [S connect_error_format,
                      S (host c), I (port c), S (sockarg_str error_type),
                      I retries, I (num_retries c)])))))"
  by pat_completeness auto
termination
  by (relation "measure (\<lambda>(c, outcomes, retries). nat (num_retries c - retries))") auto

declare priv_connect.simps [simp del]

section \<open>Opening a remote handle\<close>

type_synonym handle = string

text \<open>
  \<^verbatim>\<open>_sftp_openfh\<close> (lines 452-463). The script gives, for each invocation of
  \<^verbatim>\<open>open_func\<close>, the handle it returns (\<open>None\<close> for Python's \<^verbatim>\<open>None\<close>) and the value of
  \<^verbatim>\<open>session.last_errno()\<close> read after it. \<open>None\<close>: the script ended while the engine
  kept reporting would-block.
\<close>

fun priv_sftp_openfh ::
  "string \<Rightarrow> (handle option \<times> int) list \<Rightarrow> (error + handle option) option" where
  "priv_sftp_openfh remote_file [] = None"
| "priv_sftp_openfh remote_file ((fh, errno) # rs) =
     (if fh = None \<and> errno = LIBSSH2_ERROR_EAGAIN then priv_sftp_openfh remote_file rs
      else if errno \<noteq> LIBSSH2_ERROR_EAGAIN then
        Some (Inl (SFTPError
          [S ''Error opening file handle for file %s - error no: %s'', S remote_file, I errno]))
      else Some (Inr fh))"

section \<open>Composing the command\<close>

text \<open>
  \<^verbatim>\<open>run_command\<close> (lines 259-281): the string \<^verbatim>\<open>_command\<close> that is passed to
  \<^verbatim>\<open>execute\<close>. \<^verbatim>\<open>user\<close> and \<^verbatim>\<open>shell\<close> are \<open>None\<close> or a string; \<open>truthy\<close> is Python's
  truth value of such an argument.
\<close>

definition truthy :: "string option \<Rightarrow> bool" where
  "truthy a = (case a of None \<Rightarrow> False | Some s \<Rightarrow> s \<noteq> [])"

definition str_arg :: "string option \<Rightarrow> string" where
  "str_arg a = (case a of None \<Rightarrow> ''None'' | Some s \<Rightarrow> s)"

definition run_command :: "string \<Rightarrow> bool \<Rightarrow> string option \<Rightarrow> string option \<Rightarrow> string" where
  "run_command command sudo usr shell =
     (if \<not> sudo \<and> \<not> truthy usr \<and> \<not> truthy shell then command
      else
        (let c1 = (if sudo \<and> \<not> truthy usr then ''sudo -S ''
                   else if truthy usr then ''sudo -u '' @ str_arg usr @ '' -S ''
                   else [])
         in if truthy shell then c1 @ str_arg shell @ '' '' @ [CHR 0x22] @ command @ [CHR 0x22]
            else c1 @ ''$SHELL -c '' @ [CHR 0x22] @ command @ [CHR 0x22]))"


section \<open>Paths\<close>

text \<open>\<^verbatim>\<open>s.split('/')\<close>, \<^verbatim>\<open>'/'.join(xs)\<close> and \<^verbatim>\<open>s.split('/', 1)\<close>.\<close>

fun py_split_aux :: "string \<Rightarrow> string \<Rightarrow> string list" where
  "py_split_aux cur [] = [cur]"
| "py_split_aux cur (x # xs) =
     (if x = CHR ''/'' then cur # py_split_aux [] xs else py_split_aux (cur @ [x]) xs)"

definition py_split :: "string \<Rightarrow> string list" where
  "py_split s = py_split_aux [] s"

fun py_join :: "string list \<Rightarrow> string" where
  "py_join [] = []"
| "py_join [x] = x"
| "py_join (x # y # ys) = x @ ''/'' @ py_join (y # ys)"

text \<open>
  \<^verbatim>\<open>directory.split('/', 1)\<close> as the pair the source unpacks it into; the second
  component is \<open>None\<close> where the unpacking raises \<^verbatim>\<open>ValueError\<close> (no separator).
\<close>

definition py_split1 :: "string \<Rightarrow> string \<times> string option" where
  "py_split1 s =
     (if CHR ''/'' \<in> set s
      then (takeWhile (\<lambda>x. x \<noteq> CHR ''/'') s, Some (tl (dropWhile (\<lambda>x. x \<noteq> CHR ''/'') s)))
      else (s, None))"

lemma py_split1_shorter: "py_split1 s = (h, Some r) \<Longrightarrow> length r < length s"
proof -
  assume a: "py_split1 s = (h, Some r)"
  then have m: "CHR ''/'' \<in> set s" and r: "r = tl (dropWhile (\<lambda>x. x \<noteq> CHR ''/'') s)"
    by (auto simp: py_split1_def split: if_splits)
  from m have "dropWhile (\<lambda>x. x \<noteq> CHR ''/'') s \<noteq> []" by auto
  then have "length r < length (dropWhile (\<lambda>x. x \<noteq> CHR ''/'') s)"
    using r by (cases "dropWhile (\<lambda>x. x \<noteq> CHR ''/'') s") auto
  also have "\<dots> \<le> length s" by (rule length_dropWhile_le)
  finally show ?thesis .
qed

text \<open>\<^verbatim>\<open>_remote_paths_split\<close> (lines 495-502); the slice \<^verbatim>\<open>[:-1]\<close> never raises.\<close>

definition priv_remote_paths_split :: "string \<Rightarrow> string" where
  "priv_remote_paths_split file_path =
     py_join (butlast (filter (\<lambda>d. d \<noteq> []) (py_split file_path)))"

section \<open>The remote server, as the client sees it through the engine\<close>

definition LIBSSH2_ERROR_SFTP_PROTOCOL :: int where
  "LIBSSH2_ERROR_SFTP_PROTOCOL = - 31"

definition LIBSSH2_SFTP_S_IRUSR :: int where "LIBSSH2_SFTP_S_IRUSR = 256"
definition LIBSSH2_SFTP_S_IWUSR :: int where "LIBSSH2_SFTP_S_IWUSR = 128"
definition LIBSSH2_SFTP_S_IXUSR :: int where "LIBSSH2_SFTP_S_IXUSR = 64"
definition LIBSSH2_SFTP_S_IRGRP :: int where "LIBSSH2_SFTP_S_IRGRP = 32"
definition LIBSSH2_SFTP_S_IXGRP :: int where "LIBSSH2_SFTP_S_IXGRP = 8"
definition LIBSSH2_SFTP_S_IROTH :: int where "LIBSSH2_SFTP_S_IROTH = 4"
definition LIBSSH2_SFTP_S_IXOTH :: int where "LIBSSH2_SFTP_S_IXOTH = 1"
definition LIBSSH2_FXF_WRITE :: int where "LIBSSH2_FXF_WRITE = 2"
definition LIBSSH2_FXF_CREAT :: int where "LIBSSH2_FXF_CREAT = 8"
definition LIBSSH2_FXF_TRUNC :: int where "LIBSSH2_FXF_TRUNC = 16"

datatype sftp_call = Stat string | Mkdir string int | Open string int int

text \<open>
  The state behind the SFTP calls. Paths are names: the server compares them as the
  client writes them. \<open>dirs\<close> are the directories in the order of their creation,
  \<open>files\<close> the contents of the files, \<open>denied\<close> the paths the server refuses to create.
  \<open>wouldblock\<close> is the number of would-block replies the engine gives to a call before
  its definitive reply, \<open>errno\<close> what \<^verbatim>\<open>session.last_errno()\<close> returns (the engine keeps
  the code of its last error: a success does not reset it), \<open>read_size\<close> the length of
  the chunks a read handle gives, and \<open>calls\<close> the log of the calls made (one entry for a
  pumped call).
\<close>

record remote =
  dirs :: "string list"
  files :: "string \<Rightarrow> bytes option"
  denied :: "string list"
  wouldblock :: nat
  errno :: int
  read_size :: nat
  calls :: "sftp_call list"

definition exists_remote :: "remote \<Rightarrow> string \<Rightarrow> bool" where
  "exists_remote s p =
     (if p \<in> set (dirs s) then True
      else (case files s p of None \<Rightarrow> False | Some content \<Rightarrow> True))"

text \<open>A call through the pump whose definitive reply is \<open>reply\<close>.\<close>

definition pump_call :: "remote \<Rightarrow> sftp_call \<Rightarrow> int ret \<Rightarrow> int ret option \<times> remote" where
  "pump_call s call reply =
     (priv_eagain (replicate (wouldblock s) (Ret LIBSSH2_ERROR_EAGAIN) @ [reply]),
      s\<lparr>calls := calls s @ [call],
        errno := (case reply of
                    Raise e \<Rightarrow> LIBSSH2_ERROR_SFTP_PROTOCOL
                  | Ret v \<Rightarrow> if 0 < wouldblock s then LIBSSH2_ERROR_EAGAIN else errno s)\<rparr>)"

text \<open>\<^verbatim>\<open>self._eagain(sftp.stat, path)\<close>: the engine raises \<^verbatim>\<open>SFTPHandleError\<close> for a missing path.\<close>

definition sftp_stat :: "remote \<Rightarrow> string \<Rightarrow> int ret option \<times> remote" where
  "sftp_stat s p =
     pump_call s (Stat p) (if exists_remote s p then Ret 0 else Raise SFTPHandleError)"

text \<open>\<^verbatim>\<open>self._eagain(sftp.mkdir, path, mode)\<close>: the server creates a path that is new and not denied.\<close>

definition sftp_mkdir :: "remote \<Rightarrow> string \<Rightarrow> int \<Rightarrow> int ret option \<times> remote" where
  "sftp_mkdir s p mode =
     (if exists_remote s p \<or> p \<in> set (denied s)
      then pump_call s (Mkdir p mode) (Raise SFTPIOError_ssh2)
      else (case pump_call s (Mkdir p mode) (Ret 0) of
              (r, s') \<Rightarrow> (r, s'\<lparr>dirs := dirs s' @ [p]\<rparr>)))"

section \<open>Creating directories\<close>

text \<open>\<^verbatim>\<open>_mkdir\<close> (lines 291-314).\<close>

definition priv_mkdir :: "client \<Rightarrow> remote \<Rightarrow> string \<Rightarrow> (error + unit) option \<times> remote" where
  "priv_mkdir c s directory =
     (let mode = LIBSSH2_SFTP_S_IRUSR OR LIBSSH2_SFTP_S_IWUSR OR LIBSSH2_SFTP_S_IXUSR OR
                 LIBSSH2_SFTP_S_IRGRP OR LIBSSH2_SFTP_S_IROTH OR LIBSSH2_SFTP_S_IXGRP OR
                 LIBSSH2_SFTP_S_IXOTH
      in case sftp_mkdir s directory mode of
           (None, s') \<Rightarrow> (None, s')
         | (Some (Raise e), s') \<Rightarrow>
             (if e = SFTPIOError_ssh2 then
                (Some (Inl (SFTPIOError
                   [S ''Error occured creating directory %s on host %s - %s'',
                    S directory, S (host c), E e])), s')
              else (Some (Inl e), s'))
         | (Some (Ret v), s') \<Rightarrow> (Some (Inr ()), s'))"

text \<open>
  Lines 375-378 of \<^verbatim>\<open>mkdir\<close>: the status probe of \<^verbatim>\<open>_directory\<close> and, when the engine
  raises \<^verbatim>\<open>SFTPHandleError\<close>, its creation.
\<close>

definition probe_or_create :: "client \<Rightarrow> remote \<Rightarrow> string \<Rightarrow> (error + unit) option \<times> remote" where
  "probe_or_create c s directory =
     (case sftp_stat s directory of
        (None, s') \<Rightarrow> (None, s')
      | (Some (Raise e), s') \<Rightarrow>
          (if e = SFTPHandleError then priv_mkdir c s' directory else (Some (Inl e), s'))
      | (Some (Ret v), s') \<Rightarrow> (Some (Inr ()), s'))"

text \<open>\<^verbatim>\<open>mkdir\<close> (lines 356-382).\<close>

function mkdir ::
  "client \<Rightarrow> remote \<Rightarrow> string \<Rightarrow> string option \<Rightarrow> (error + unit) option \<times> remote" where
  "mkdir c s directory parent_path =
     (case py_split1 directory of
        (p, sub_dirs) \<Rightarrow>
          (let d = (case parent_path of None \<Rightarrow> p | Some pp \<Rightarrow> py_join [pp, p])
           in case probe_or_create c s d of
                (Some (Inr u), s') \<Rightarrow>
                  (case sub_dirs of
                     None \<Rightarrow> (Some (Inr ()), s')
                   | Some sd \<Rightarrow> mkdir c s' sd (Some d))
              | (r, s') \<Rightarrow> (r, s')))"
  by pat_completeness auto
termination
  by (relation "measure (\<lambda>(c, s, directory, parent_path). length directory)")
     (auto intro: py_split1_shorter [OF sym])

declare mkdir.simps [simp del]


section \<open>Copying a file\<close>

text \<open>
  \<^verbatim>\<open>sftp.open(remote_file, flags, mode)\<close> on the server: with the write flag the file is
  created or truncated (a directory cannot be opened), without it an existing file is
  opened. A handle is the name of its file. The result is the definitive reply.
\<close>

definition engine_open :: "remote \<Rightarrow> string \<Rightarrow> int \<Rightarrow> handle option \<times> remote" where
  "engine_open s remote_file flags =
     (if flags AND LIBSSH2_FXF_WRITE \<noteq> 0 then
        (if remote_file \<in> set (dirs s) then (None, s)
         else (Some remote_file, s\<lparr>files := (files s)(remote_file \<mapsto> [])\<rparr>))
      else
        (case files s remote_file of
           None \<Rightarrow> (None, s)
         | Some content \<Rightarrow> (Some remote_file, s)))"

text \<open>
  The replies to the successive invocations of \<^verbatim>\<open>open_func\<close>, each with the value of
  \<^verbatim>\<open>last_errno()\<close> after it.
\<close>

definition open_script :: "remote \<Rightarrow> handle option \<Rightarrow> (handle option \<times> int) list" where
  "open_script s fh =
     replicate (wouldblock s) (None, LIBSSH2_ERROR_EAGAIN) @
     [(fh, case fh of
             None \<Rightarrow> LIBSSH2_ERROR_SFTP_PROTOCOL
           | Some h \<Rightarrow> if 0 < wouldblock s then LIBSSH2_ERROR_EAGAIN else errno s)]"

text \<open>\<^verbatim>\<open>self._sftp_openfh(sftp.open, remote_file, flags, mode)\<close> on the server.\<close>

definition openfh ::
  "remote \<Rightarrow> string \<Rightarrow> int \<Rightarrow> int \<Rightarrow> (error + handle option) option \<times> remote" where
  "openfh s remote_file flags mode =
     (case engine_open s remote_file flags of
        (fh, s') \<Rightarrow>
          (priv_sftp_openfh remote_file (open_script s fh),
           s'\<lparr>calls := calls s @ [Open remote_file flags mode],
              errno := snd (last (open_script s fh))\<rparr>))"

text \<open>\<^verbatim>\<open>for data in local_fh\<close>: the lines of a file opened in binary mode, each with its newline.\<close>

fun py_lines_aux :: "bytes \<Rightarrow> bytes \<Rightarrow> bytes list" where
  "py_lines_aux cur [] = (if cur = [] then [] else [cur])"
| "py_lines_aux cur (x # xs) =
     (if x = CHR 0x0A then (cur @ [x]) # py_lines_aux [] xs else py_lines_aux (cur @ [x]) xs)"

definition py_lines :: "bytes \<Rightarrow> bytes list" where
  "py_lines content = py_lines_aux [] content"

text \<open>\<^verbatim>\<open>remote_fh.write(data)\<close>: the server appends the data, all of it.\<close>

definition remote_write :: "handle \<Rightarrow> bytes \<Rightarrow> remote \<Rightarrow> remote" where
  "remote_write fh data s =
     s\<lparr>files := (files s)(fh \<mapsto> (case files s fh of None \<Rightarrow> data | Some old \<Rightarrow> old @ data))\<rparr>"

text \<open>\<^verbatim>\<open>for size, data in remote_fh\<close>: the reads of at most \<open>n\<close> bytes, until a read is empty.\<close>

function chunks_of :: "nat \<Rightarrow> bytes \<Rightarrow> bytes list" where
  "chunks_of n xs = (if n = 0 \<or> xs = [] then [] else take n xs # chunks_of n (drop n xs))"
  by pat_completeness auto
termination
  by (relation "measure (\<lambda>(n, xs). length xs)") auto

declare chunks_of.simps [simp del]

definition remote_reads :: "remote \<Rightarrow> handle \<Rightarrow> read_result list" where
  "remote_reads s fh =
     (case files s fh of None \<Rightarrow> [] | Some content \<Rightarrow> map chunk (chunks_of (read_size s) content))"

type_synonym local_fs = "string \<Rightarrow> bytes option"

definition local_write :: "string \<Rightarrow> read_result \<Rightarrow> local_fs \<Rightarrow> local_fs" where
  "local_write local_file r l =
     l(local_file \<mapsto> (case l local_file of None \<Rightarrow> snd r | Some old \<Rightarrow> old @ snd r))"

text \<open>
  \<^verbatim>\<open>sftp_put\<close> (lines 339-354). The remote handle is opened first, then the local
  file; a local file that is missing raises \<^verbatim>\<open>IOError\<close>.
\<close>

definition sftp_put ::
  "remote \<Rightarrow> local_fs \<Rightarrow> string \<Rightarrow> string \<Rightarrow> (error + unit) option \<times> remote" where
  "sftp_put s l local_file remote_file =
     (let mode = LIBSSH2_SFTP_S_IRUSR OR LIBSSH2_SFTP_S_IWUSR OR LIBSSH2_SFTP_S_IRGRP OR
                 LIBSSH2_SFTP_S_IROTH;
          f_flags = LIBSSH2_FXF_CREAT OR LIBSSH2_FXF_WRITE OR LIBSSH2_FXF_TRUNC
      in case openfh s remote_file f_flags mode of
           (None, s') \<Rightarrow> (None, s')
         | (Some (Inl e), s') \<Rightarrow> (Some (Inl e), s')
         | (Some (Inr None), s') \<Rightarrow> (Some (Inl OtherError), s')
         | (Some (Inr (Some remote_fh)), s') \<Rightarrow>
             (case l local_file of
                None \<Rightarrow> (Some (Inl IOError), s')
              | Some content \<Rightarrow>
                  (Some (Inr ()), fold (remote_write remote_fh) (py_lines content) s')))"

text \<open>
  \<^verbatim>\<open>sftp_get\<close> (lines 465-474). The local file is opened for writing first, which
  creates or empties it.
\<close>

definition sftp_get ::
  "remote \<Rightarrow> local_fs \<Rightarrow> string \<Rightarrow> string \<Rightarrow> (error + unit) option \<times> remote \<times> local_fs" where
  "sftp_get s l remote_file local_file =
     (let l1 = l(local_file \<mapsto> [])
      in case openfh s remote_file 0 0 of
           (None, s') \<Rightarrow> (None, s', l1)
         | (Some (Inl e), s') \<Rightarrow> (Some (Inl e), s', l1)
         | (Some (Inr None), s') \<Rightarrow> (Some (Inl OtherError), s', l1)
         | (Some (Inr (Some remote_fh)), s') \<Rightarrow>
             (Some (Inr ()), s', fold (local_write local_file) (remote_reads s' remote_fh) l1))"

text \<open>
  \<^verbatim>\<open>copy_file\<close> for a \<^verbatim>\<open>local_file\<close> that is not a directory (lines 324-337; the
  \<^verbatim>\<open>except\<close> clause of lines 331-335 logs the error and raises it again).
\<close>

definition copy_file ::
  "client \<Rightarrow> remote \<Rightarrow> local_fs \<Rightarrow> string \<Rightarrow> string \<Rightarrow> (error + unit) option \<times> remote" where
  "copy_file c s l local_file remote_file =
     (let destination = priv_remote_paths_split remote_file
      in case sftp_stat s destination of
           (None, s') \<Rightarrow> (None, s')
         | (Some (Raise e), s') \<Rightarrow>
             (if e = SFTPHandleError then
                (case mkdir c s' destination None of
                   (Some (Inr u), s'') \<Rightarrow> sftp_put s'' l local_file remote_file
                 | (r, s'') \<Rightarrow> (r, s''))
              else (Some (Inl e), s'))
         | (Some (Ret v), s') \<Rightarrow> sftp_put s' l local_file remote_file)"


section \<open>Notions used to state the properties\<close>

text \<open>A chunk holds no separator: \<^verbatim>\<open>d.find(sep)\<close> is negative.\<close>

definition no_sep :: "bytes \<Rightarrow> bytes \<Rightarrow> bool" where
  "no_sep sep d = (py_find d sep 0 < 0)"

text \<open>
  The command of section 4.4 of the specification, in its words: the prefix, then the
  shell invocation.
\<close>

definition spec_prefix :: "bool \<Rightarrow> string option \<Rightarrow> string" where
  "spec_prefix sudo usr =
     (if truthy usr then ''sudo -u '' @ str_arg usr @ '' -S ''
      else if sudo then ''sudo -S ''
      else [])"

definition spec_command :: "string \<Rightarrow> bool \<Rightarrow> string option \<Rightarrow> string option \<Rightarrow> string" where
  "spec_command command sudo usr shell =
     (if \<not> (sudo \<or> truthy usr \<or> truthy shell) then command
      else spec_prefix sudo usr @
           (if truthy shell then str_arg shell @ '' '' @ [CHR 0x22] @ command @ [CHR 0x22]
            else ''$SHELL -c '' @ [CHR 0x22] @ command @ [CHR 0x22]))"

text \<open>
  The authentication attempts. \<open>pk_call c f\<close> is the public key attempt with the key
  file \<open>f\<close>. \<open>attempt_fails eng call\<close>: the attempt fails and the chain may go on (the
  agent raises \<^verbatim>\<open>AuthenticationError\<close> or \<^verbatim>\<open>AgentError\<close>; a key file attempt raises;
  the password attempt raises \<^verbatim>\<open>AuthenticationError\<close> or returns a code other than
  \<open>0\<close>). \<open>candidates\<close> is the list of the methods of section 4.3 of the specification
  after the explicit key, in their order: the agent if allowed, the identity files that
  exist, the password if supplied. \<open>upto_first_success fails xs\<close> is \<open>xs\<close> up to and
  with its first element that does not fail.
\<close>

definition pk_call :: "client \<Rightarrow> string \<Rightarrow> auth_call" where
  "pk_call c f = Userauth_publickey_fromfile (user c) (f @ ''.pub'') f (passphrase c)"

fun attempt_fails :: "auth_engine \<Rightarrow> auth_call \<Rightarrow> bool" where
  "attempt_fails eng (Agent_auth u) =
     (case eng (Agent_auth u) of
        Raise e # rs \<Rightarrow> e = AuthenticationError \<or> e = AgentError
      | _ \<Rightarrow> False)"
| "attempt_fails eng (Userauth_publickey_fromfile u p k ph) =
     (case priv_eagain (eng (Userauth_publickey_fromfile u p k ph)) of
        Some (Raise e) \<Rightarrow> True
      | _ \<Rightarrow> False)"
| "attempt_fails eng (Userauth_password u pw) =
     (case priv_eagain (eng (Userauth_password u pw)) of
        Some (Raise e) \<Rightarrow> e = AuthenticationError
      | Some (Ret v) \<Rightarrow> v \<noteq> 0
      | None \<Rightarrow> False)"

definition candidates :: "client \<Rightarrow> string list \<Rightarrow> (string \<Rightarrow> bool) \<Rightarrow> auth_call list" where
  "candidates c IDENTITIES isfile =
     (if allow_agent c then [Agent_auth (user c)] else []) @
     map (pk_call c) (filter isfile IDENTITIES) @
     (case password c of None \<Rightarrow> [] | Some pw \<Rightarrow> [Userauth_password (user c) pw])"

definition authentication_failure :: "error \<Rightarrow> bool" where
  "authentication_failure e =
     (case e of AuthenticationError \<Rightarrow> True | AuthenticationException a \<Rightarrow> True | _ \<Rightarrow> False)"

definition upto_first_success :: "('a \<Rightarrow> bool) \<Rightarrow> 'a list \<Rightarrow> 'a list" where
  "upto_first_success fails xs = takeWhile fails xs @ take 1 (dropWhile fails xs)"

text \<open>Two engines and two clients, to run the chain on.\<close>

definition example_client :: client where
  "example_client =
     \<lparr>host = ''example.org'', user = ''alice'', password = Some ''secret'', port = 22,
      pkey = None, num_retries = 3, allow_agent = True\<rparr>"

definition second_key_engine :: auth_engine where
  "second_key_engine call =
     (case call of
        Agent_auth u \<Rightarrow> [Raise AgentError]
      | Userauth_publickey_fromfile u p k ph \<Rightarrow>
          (if k = ''id_rsa'' then [Ret LIBSSH2_ERROR_EAGAIN, Raise AuthenticationError]
           else [Ret LIBSSH2_ERROR_EAGAIN, Ret 0])
      | Userauth_password u pw \<Rightarrow> [Ret 0])"

definition refusing_engine :: auth_engine where
  "refusing_engine call =
     (case call of
        Agent_auth u \<Rightarrow> [Raise AgentError]
      | Userauth_publickey_fromfile u p k ph \<Rightarrow>
          [Ret LIBSSH2_ERROR_EAGAIN, Raise AuthenticationError]
      | Userauth_password u pw \<Rightarrow> [Ret LIBSSH2_ERROR_EAGAIN, Ret (- 18)])"

text \<open>
  Line 102: the argument of the socket error that the exception carries, and two
  sequences of connect outcomes: the operating system refuses every connection, or the
  first two.
\<close>

definition error_type :: "sock_error \<Rightarrow> sockarg" where
  "error_type args = (if 1 < length args then args ! 1 else args ! 0)"

definition always_refused :: "int \<Rightarrow> sock_error option" where
  "always_refused k = Some [SockInt 111, SockStr ''Connection refused'']"

definition refused_twice :: "int \<Rightarrow> sock_error option" where
  "refused_twice k = (if k < 3 then Some [SockInt 111, SockStr ''Connection refused''] else None)"










text \<open>
  The directory that holds a file: its path up to the last separator. Two servers
  without directories, one whose engine reports would-block once for every call and one
  whose engine answers every call at once, and a local file system of one file.
\<close>

definition parent_dir :: "string \<Rightarrow> string" where
  "parent_dir p = rev (drop 1 (dropWhile (\<lambda>x. x \<noteq> CHR ''/'') (rev p)))"

definition empty_remote :: remote where
  "empty_remote =
     \<lparr>dirs = [], files = Map.empty, denied = [], wouldblock = 1, errno = 0,
      read_size = 4, calls = []\<rparr>"

definition idle_remote :: remote where
  "idle_remote =
     \<lparr>dirs = [], files = Map.empty, denied = [], wouldblock = 0, errno = 0,
      read_size = 4, calls = []\<rparr>"

definition example_local :: local_fs where
  "example_local = Map.empty(''notes.txt'' \<mapsto> ''hello'' @ [CHR 0x0A] @ ''world!'')"

section \<open>Properties of the output demultiplexer\<close>

lemma py_find_aux_neg_iff:
  "py_find_aux sub s i < 0 \<longleftrightarrow> (\<forall>k\<le>length s. take (length sub) (drop k s) \<noteq> sub)"
proof (induction s arbitrary: i)
  case Nil
  then show ?case by auto
next
  case (Cons c cs)
  show ?case
  proof (cases "take (length sub) (c # cs) = sub")
    case True
    then show ?thesis by (auto intro: exI[of _ 0])
  next
    case False
    have "(\<forall>k\<le>length (c # cs). take (length sub) (drop k (c # cs)) \<noteq> sub)
       \<longleftrightarrow> (\<forall>k\<le>length cs. take (length sub) (drop k cs) \<noteq> sub)"
    proof
      assume a: "\<forall>k\<le>length (c # cs). take (length sub) (drop k (c # cs)) \<noteq> sub"
      show "\<forall>k\<le>length cs. take (length sub) (drop k cs) \<noteq> sub"
      proof (intro allI impI)
        fix k assume "k \<le> length cs"
        with a[rule_format, of "Suc k"] show "take (length sub) (drop k cs) \<noteq> sub" by simp
      qed
    next
      assume a: "\<forall>k\<le>length cs. take (length sub) (drop k cs) \<noteq> sub"
      show "\<forall>k\<le>length (c # cs). take (length sub) (drop k (c # cs)) \<noteq> sub"
      proof (intro allI impI)
        fix k assume k: "k \<le> length (c # cs)"
        show "take (length sub) (drop k (c # cs)) \<noteq> sub"
        proof (cases k)
          case 0
          with False show ?thesis by simp
        next
          case (Suc j)
          with k a[rule_format, of j] show ?thesis by simp
        qed
      qed
    qed
    with False Cons.IH[of "Suc i"] show ?thesis by simp
  qed
qed

lemma no_sep_find:
  assumes "no_sep sep d"
  shows "py_find (take n d) sep pos \<le> 0"
proof (cases "length (take n d) < pos")
  case True
  then show ?thesis by (simp add: py_find_def)
next
  case False
  from assms have a: "\<forall>k\<le>length d. take (length sep) (drop k d) \<noteq> sep"
    by (simp add: no_sep_def py_find_def py_find_aux_neg_iff)
  have "\<forall>k\<le>length (drop pos (take n d)). take (length sep) (drop k (drop pos (take n d))) \<noteq> sep"
  proof (intro allI impI notI)
    fix k assume k: "k \<le> length (drop pos (take n d))"
      and e: "take (length sep) (drop k (drop pos (take n d))) = sep"
    have "drop k (drop pos (take n d)) = take (n - (pos + k)) (drop (pos + k) d)"
      by (simp add: drop_take add.commute)
    with e have e': "take (min (length sep) (n - (pos + k))) (drop (pos + k) d) = sep"
      by simp
    then have "length (take (min (length sep) (n - (pos + k))) (drop (pos + k) d)) = length sep"
      by simp
    then have "min (length sep) (n - (pos + k)) = length sep
        \<or> length (drop (pos + k) d) \<le> min (length sep) (n - (pos + k))"
      by (simp add: min_def split: if_splits)
    then have "take (length sep) (drop (pos + k) d) = sep"
      using e' by (auto simp: min_def split: if_splits)
    moreover from k False have "pos + k \<le> length d" by simp
    ultimately show False using a by blast
  qed
  then have "py_find_aux sep (drop pos (take n d)) pos < 0"
    by (simp add: py_find_aux_neg_iff)
  with False show ?thesis by (simp add: py_find_def)
qed

lemma scan_no_sep: "no_sep sep d \<Longrightarrow> fst (scan_chunk sep sz d pos remainder) = []"
  using no_sep_find[of sep d sz pos]
  by (subst scan_chunk.simps) auto

lemma read_chunks_no_sep:
  "\<forall>d\<in>set ds. no_sep sep d \<Longrightarrow> read_chunks sep remainder (map chunk ds) = []"
proof (induction ds arbitrary: remainder)
  case Nil
  then show ?case by simp
next
  case (Cons d ds)
  then show ?case
    using scan_no_sep[of sep d "length d" 0 remainder]
    by (auto simp: chunk_def split: prod.splits)
qed

lemma read_chunks_append_no_sep:
  "\<forall>d\<in>set ds. no_sep sep d \<Longrightarrow>
   read_chunks sep remainder (rs @ map chunk ds) = read_chunks sep remainder rs"
proof (induction rs arbitrary: remainder)
  case Nil
  then show ?case by (simp add: read_chunks_no_sep)
next
  case (Cons r rs)
  then show ?case by (cases r) (auto split: prod.splits)
qed

lemma skip_eagain_append_chunks:
  "skip_eagain (rs @ map chunk ds) = skip_eagain rs @ map chunk ds
   \<or> (skip_eagain rs = [] \<and> skip_eagain (rs @ map chunk ds) = skip_eagain (map chunk ds))"
proof (induction rs)
  case Nil
  then show ?case by simp
next
  case (Cons r rs)
  then show ?case by (cases r) (simp split: if_splits)
qed

lemma skip_eagain_chunks: "skip_eagain (map chunk ds) = map chunk ds"
  by (cases ds) (auto simp: chunk_def LIBSSH2_ERROR_EAGAIN_def)

lemma read_output_append_no_sep:
  "\<forall>d\<in>set ds. no_sep sep d \<Longrightarrow>
   priv_read_output sep (rs @ map chunk ds) = priv_read_output sep rs"
  using skip_eagain_append_chunks[of rs ds]
  by (auto simp: priv_read_output_def read_chunks_append_no_sep skip_eagain_chunks
      read_chunks_no_sep)

lemma find_aux_single_notin: "c \<notin> set t \<Longrightarrow> py_find_aux [c] t i = - 1"
  by (induction t arbitrary: i) auto

lemma find_aux_single_append:
  "c \<notin> set t \<Longrightarrow> py_find_aux [c] (s @ t) i = py_find_aux [c] s i"
  by (induction s arbitrary: i) (auto simp: find_aux_single_notin)

lemma find_aux_single_lt:
  "0 \<le> py_find_aux [c] s i \<Longrightarrow> py_find_aux [c] s i < int i + int (length s)"
  by (induction s arbitrary: i) (auto split: if_splits, force)

lemma find_tail_inside:
  assumes "c \<notin> set t" "pos \<le> length d"
  shows "py_find (d @ t) [c] pos = py_find d [c] pos"
  using assms by (simp add: py_find_def find_aux_single_append)

lemma find_tail_outside:
  assumes "c \<notin> set t" "length d \<le> pos"
  shows "py_find (d @ t) [c] pos \<le> 0"
proof -
  from assms(1) have "c \<notin> set (drop (pos - length d) t)"
    by (auto dest: in_set_dropD)
  then have "py_find_aux [c] (drop (pos - length d) t) pos = - 1"
    by (rule find_aux_single_notin)
  with assms(2) show ?thesis by (simp add: py_find_def)
qed

lemma find_lt_length:
  "0 \<le> py_find d [c] pos \<Longrightarrow> py_find d [c] pos < int (length d)"
  using find_aux_single_lt[of c "drop pos d" pos]
  by (auto simp: py_find_def split: if_splits)

lemma scan_found_rem:
  "pos < sz \<Longrightarrow> 0 < py_find (take sz data) sep pos \<Longrightarrow> remainder \<noteq> [] \<Longrightarrow>
   scan_chunk sep sz data pos remainder =
     (case scan_chunk sep sz data pos [] of
        (ys, r) \<Rightarrow>
          ((remainder @ strip (slice data pos (nat (py_find (take sz data) sep pos)))) # ys, r))"
  by (subst scan_chunk.simps) simp

lemma scan_found_norem:
  "pos < sz \<Longrightarrow> 0 < py_find (take sz data) sep pos \<Longrightarrow>
   scan_chunk sep sz data pos [] =
     (case scan_chunk sep sz data (nat (py_find (take sz data) sep pos) + 1) [] of
        (ys, r) \<Rightarrow> (strip (slice data pos (nat (py_find (take sz data) sep pos))) # ys, r))"
  by (subst scan_chunk.simps) simp

lemma scan_notfound:
  "pos < sz \<Longrightarrow> \<not> 0 < py_find (take sz data) sep pos \<Longrightarrow>
   scan_chunk sep sz data pos remainder = ([], remainder @ drop pos data)"
  by (subst scan_chunk.simps) simp

lemma scan_done: "\<not> pos < sz \<Longrightarrow> scan_chunk sep sz data pos remainder = ([], remainder)"
  by (subst scan_chunk.simps) simp

lemma scan_tail:
  "c \<notin> set t \<Longrightarrow>
   fst (scan_chunk [c] (length (d @ t)) (d @ t) pos remainder)
   = fst (scan_chunk [c] (length d) d pos remainder)"
proof (induction "[c]" "length d" d pos remainder rule: scan_chunk.induct)
  case (1 data pos remainder)
  show ?case
  proof (cases "pos < length data")
    case inside: True
    then have inside': "pos < length (data @ t)" by simp
    let ?l = "py_find data [c] pos"
    have f: "py_find (take (length (data @ t)) (data @ t)) [c] pos = ?l"
      using 1(3) inside by (simp add: find_tail_inside)
    have f': "py_find (take (length data) data) [c] pos = ?l" by simp
    show ?thesis
    proof (cases "0 < ?l")
      case found: True
      then have lt: "?l < int (length data)" by (intro find_lt_length) simp
      then have sl: "slice (data @ t) pos (nat ?l) = slice data pos (nat ?l)"
        using found by (simp add: slice_def)
      show ?thesis
      proof (cases "remainder = []")
        case False
        have ih: "fst (scan_chunk [c] (length (data @ t)) (data @ t) pos [])
            = fst (scan_chunk [c] (length data) data pos [])"
          using 1(1)[OF inside _ _ 1(3)] found False by simp
        have "scan_chunk [c] (length (data @ t)) (data @ t) pos remainder =
           (case scan_chunk [c] (length (data @ t)) (data @ t) pos [] of
              (ys, r) \<Rightarrow> ((remainder @ strip (slice (data @ t) pos (nat ?l))) # ys, r))"
          using scan_found_rem[OF inside', of "data @ t" "[c]" remainder] found False f
          by simp
        moreover have "scan_chunk [c] (length data) data pos remainder =
           (case scan_chunk [c] (length data) data pos [] of
              (ys, r) \<Rightarrow> ((remainder @ strip (slice data pos (nat ?l))) # ys, r))"
          using scan_found_rem[OF inside, of data "[c]" remainder] found False
          by simp
        ultimately show ?thesis using ih sl by (simp split: prod.splits)
      next
        case True
        have ih: "fst (scan_chunk [c] (length (data @ t)) (data @ t) (nat ?l + 1) [])
            = fst (scan_chunk [c] (length data) data (nat ?l + 1) [])"
          using 1(2)[OF inside _ _ 1(3)] found True by simp
        have "scan_chunk [c] (length (data @ t)) (data @ t) pos [] =
           (case scan_chunk [c] (length (data @ t)) (data @ t) (nat ?l + 1) [] of
              (ys, r) \<Rightarrow> (strip (slice (data @ t) pos (nat ?l)) # ys, r))"
          using scan_found_norem[OF inside', of "data @ t" "[c]"] found f
          by simp
        moreover have "scan_chunk [c] (length data) data pos [] =
           (case scan_chunk [c] (length data) data (nat ?l + 1) [] of
              (ys, r) \<Rightarrow> (strip (slice data pos (nat ?l)) # ys, r))"
          using scan_found_norem[OF inside, of data "[c]"] found
          by simp
        ultimately show ?thesis using ih sl True by (simp split: prod.splits)
      qed
    next
      case False
      with inside inside' f show ?thesis
        by (simp add: scan_notfound)
    qed
  next
    case outside: False
    then have nf: "\<not> 0 < py_find (take (length (data @ t)) (data @ t)) [c] pos"
      using 1(3) find_tail_outside[of c t data pos] by simp
    show ?thesis
    proof (cases "pos < length (data @ t)")
      case True
      with nf outside show ?thesis by (simp add: scan_notfound scan_done)
    next
      case False
      with outside show ?thesis by (simp add: scan_done)
    qed
  qed
qed

lemma read_chunks_single:
  "read_chunks sep remainder [chunk x] = fst (scan_chunk sep (length x) x 0 remainder)"
  by (cases "x = []") (auto simp: chunk_def scan_done split: prod.splits)

lemma read_chunks_tail:
  "c \<notin> set t \<Longrightarrow>
   read_chunks [c] remainder (rs @ [chunk (d @ t)]) = read_chunks [c] remainder (rs @ [chunk d])"
proof (induction rs arbitrary: remainder)
  case Nil
  then show ?case
    using scan_tail[of c t d 0 remainder] by (simp add: read_chunks_single)
next
  case (Cons r rs)
  then show ?case by (cases r) (auto split: prod.splits)
qed

lemma skip_eagain_snoc:
  "skip_eagain (rs @ [chunk x]) =
     (if skip_eagain rs = [] then [chunk x] else skip_eagain rs @ [chunk x])"
proof (induction rs)
  case Nil
  then show ?case by (simp add: chunk_def LIBSSH2_ERROR_EAGAIN_def)
next
  case (Cons r rs)
  then show ?case by (cases r) simp
qed

lemma read_output_tail:
  "c \<notin> set t \<Longrightarrow>
   priv_read_output [c] (rs @ [chunk (d @ t)]) = priv_read_output [c] (rs @ [chunk d])"
  using read_chunks_tail[of c t "[]" "[]" d] read_chunks_tail[of c t "[]" "skip_eagain rs" d]
  by (simp add: priv_read_output_def skip_eagain_snoc)

text \<open>
  Claim C10: at the end of the stream the accumulated remainder is dropped. Chunks that
  hold no separator, at the end of a stream, add no line to those of the stream before
  them (so a stream without any separator yields no line); the bytes after the last
  separator of the last chunk add no line either; and there is a channel output that is
  not empty and yields no line.
\<close>

theorem read_output_discards_remainder:
  "((\<forall>x\<in>set ds. no_sep sep x) \<longrightarrow>
      priv_read_output sep (rs @ map chunk ds) = priv_read_output sep rs)
   \<and> (c \<notin> set t \<longrightarrow>
      priv_read_output [c] (rs @ [chunk (d @ t)]) = priv_read_output [c] (rs @ [chunk d]))
   \<and> (\<exists>x. x \<noteq> [] \<and> priv_read_output [CHR 0x0A] [chunk x] = [])"
proof (intro conjI impI)
  assume "\<forall>x\<in>set ds. no_sep sep x"
  then show "priv_read_output sep (rs @ map chunk ds) = priv_read_output sep rs"
    by (rule read_output_append_no_sep)
next
  assume "c \<notin> set t"
  then show "priv_read_output [c] (rs @ [chunk (d @ t)]) = priv_read_output [c] (rs @ [chunk d])"
    by (rule read_output_tail)
next
  have "priv_read_output [CHR 0x0A] [chunk ''abc''] = []" by code_simp
  then show "\<exists>x. x \<noteq> [] \<and> priv_read_output [CHR 0x0A] [chunk x] = []"
    by (intro exI[of _ "''abc''"]) simp
qed

theorem read_output_discards_remainder_witness:
  "priv_read_output [CHR 0x0A] ([chunk (''ab'' @ [CHR 0x0A])] @ map chunk [''cd'', ''ef''])
     = [''ab'']
   \<and> priv_read_output [CHR 0x0A] ([] @ [chunk ((''ab'' @ [CHR 0x0A]) @ ''cd'')]) = [''ab'']"
proof -
  have h1: "\<forall>x\<in>set [''cd'', ''ef'']. no_sep [CHR 0x0A] x"
    by (simp add: no_sep_def py_find_def)
  have h2: "CHR 0x0A \<notin> set ''cd''" by simp
  have e1: "priv_read_output [CHR 0x0A] [chunk (''ab'' @ [CHR 0x0A])] = [''ab'']"
    by code_simp
  have e2: "priv_read_output [CHR 0x0A] ([] @ [chunk (''ab'' @ [CHR 0x0A])]) = [''ab'']"
    by code_simp
  from read_output_discards_remainder
         [of "[''cd'', ''ef'']" "[CHR 0x0A]" "[chunk (''ab'' @ [CHR 0x0A])]"
             "CHR 0x0A" "''cd''" "''ab'' @ [CHR 0x0A]"]
  have a: "priv_read_output [CHR 0x0A] ([chunk (''ab'' @ [CHR 0x0A])] @ map chunk [''cd'', ''ef''])
           = priv_read_output [CHR 0x0A] [chunk (''ab'' @ [CHR 0x0A])]"
    using h1 by blast
  from read_output_discards_remainder
         [of "[]" "[CHR 0x0A]" "[]" "CHR 0x0A" "''cd''" "''ab'' @ [CHR 0x0A]"]
  have b: "priv_read_output [CHR 0x0A] ([] @ [chunk ((''ab'' @ [CHR 0x0A]) @ ''cd'')])
           = priv_read_output [CHR 0x0A] ([] @ [chunk (''ab'' @ [CHR 0x0A])])"
    using h2 by blast
  show ?thesis
    unfolding a b e1 e2 by simp
qed

text \<open>
  Claim C1, at the chunks of the specification's example: the separator is the newline,
  the chunks are \<^verbatim>\<open>"hello\nwor"\<close> and \<^verbatim>\<open>"ld\n"\<close>. The demultiplexer yields three lines,
  \<^verbatim>\<open>hello\<close>, \<^verbatim>\<open>world\<close> and then \<^verbatim>\<open>ld\<close> once more: after it has yielded the remainder
  joined with the head of the chunk, the scan position has not moved, and the same
  separator is found again. A line whose separator is the first byte of a later chunk is
  not yielded at all.
\<close>

theorem read_output_split_line_yields_thrice:
  "priv_read_output [CHR 0x0A]
     [chunk (''hello'' @ [CHR 0x0A] @ ''wor''), chunk (''ld'' @ [CHR 0x0A])]
   = [''hello'', ''world'', ''ld'']
   \<and> priv_read_output [CHR 0x0A] [chunk ''wor'', chunk [CHR 0x0A]] = []"
  by code_simp

text \<open>
  Claim C2, at a channel whose second read reports would-block: the first read gives
  \<^verbatim>\<open>"ab\n"\<close>, the second the would-block code, the third \<^verbatim>\<open>"cd\n"\<close>. The demultiplexer
  takes the would-block code for the end of the stream and yields \<^verbatim>\<open>ab\<close> only, where the
  same channel without the would-block yields \<^verbatim>\<open>ab\<close> and \<^verbatim>\<open>cd\<close>; a would-block on the
  first read is retried.
\<close>

theorem read_output_would_block_ends_stream:
  "priv_read_output [CHR 0x0A]
     [chunk (''ab'' @ [CHR 0x0A]), eagain_read, chunk (''cd'' @ [CHR 0x0A])] = [''ab'']
   \<and> priv_read_output [CHR 0x0A]
     [chunk (''ab'' @ [CHR 0x0A]), chunk (''cd'' @ [CHR 0x0A])] = [''ab'', ''cd'']
   \<and> priv_read_output [CHR 0x0A]
     [eagain_read, chunk (''ab'' @ [CHR 0x0A]), chunk (''cd'' @ [CHR 0x0A])] = [''ab'', ''cd'']"
  by code_simp

section \<open>Properties of authentication\<close>

lemma upto_first_success_Cons:
  "upto_first_success fails (x # xs) = (if fails x then x # upto_first_success fails xs else [x])"
  by (simp add: upto_first_success_def)

lemma upto_first_success_append:
  "upto_first_success fails (xs @ ys) =
     (if \<forall>x\<in>set xs. fails x then xs @ upto_first_success fails ys
      else upto_first_success fails xs)"
  by (induction xs) (auto simp: upto_first_success_Cons)

lemma upto_first_success_single: "upto_first_success fails [x] = [x]"
  by (simp add: upto_first_success_def)

lemma upto_first_success_Nil: "upto_first_success fails [] = []"
  by (simp add: upto_first_success_def)

lemma identity_skip:
  "\<not> isfile f \<Longrightarrow> priv_identity_auth c isfile eng (f # fs) = priv_identity_auth c isfile eng fs"
  by simp

lemma identity_pending:
  "isfile f \<Longrightarrow> priv_eagain (eng (pk_call c f)) = None \<Longrightarrow>
   priv_identity_auth c isfile eng (f # fs) = ([pk_call c f], None)"
  by (simp add: pk_call_def)

lemma identity_raise:
  "isfile f \<Longrightarrow> priv_eagain (eng (pk_call c f)) = Some (Raise e) \<Longrightarrow>
   priv_identity_auth c isfile eng (f # fs) =
     (pk_call c f # fst (priv_identity_auth c isfile eng fs),
      snd (priv_identity_auth c isfile eng fs))"
  by (simp add: pk_call_def split: prod.splits)

lemma identity_ret:
  "isfile f \<Longrightarrow> priv_eagain (eng (pk_call c f)) = Some (Ret v) \<Longrightarrow>
   priv_identity_auth c isfile eng (f # fs) = ([pk_call c f], Some (Inr ()))"
  by (simp add: pk_call_def)

lemma fails_pk:
  "attempt_fails eng (pk_call c f) \<longleftrightarrow> (\<exists>e. priv_eagain (eng (pk_call c f)) = Some (Raise e))"
  by (simp add: pk_call_def split: option.splits ret.splits)

lemma identity_auth_trace:
  "fst (priv_identity_auth c isfile eng ids)
     = upto_first_success (attempt_fails eng) (map (pk_call c) (filter isfile ids))"
proof (induction ids)
  case Nil
  then show ?case by (simp add: upto_first_success_Nil)
next
  case (Cons f fs)
  show ?case
  proof (cases "isfile f")
    case False
    then have step: "priv_identity_auth c isfile eng (f # fs) = priv_identity_auth c isfile eng fs"
      by (rule identity_skip)
    show ?thesis unfolding step using False Cons by simp
  next
    case True
    show ?thesis
    proof (cases "priv_eagain (eng (pk_call c f))")
      case None
      then have nf: "\<not> attempt_fails eng (pk_call c f)" by (simp add: fails_pk)
      have step: "priv_identity_auth c isfile eng (f # fs) = ([pk_call c f], None)"
        using True None by (rule identity_pending)
      show ?thesis unfolding step using True nf by (simp add: upto_first_success_Cons)
    next
      case (Some r)
      show ?thesis
      proof (cases r)
        case (Ret v)
        with Some have nf: "\<not> attempt_fails eng (pk_call c f)" by (simp add: fails_pk)
        have step: "priv_identity_auth c isfile eng (f # fs) = ([pk_call c f], Some (Inr ()))"
          using True Some Ret by (intro identity_ret) simp_all
        show ?thesis unfolding step using True nf by (simp add: upto_first_success_Cons)
      next
        case (Raise e)
        with Some have fl: "attempt_fails eng (pk_call c f)" by (simp add: fails_pk)
        have step: "priv_identity_auth c isfile eng (f # fs) =
            (pk_call c f # fst (priv_identity_auth c isfile eng fs),
             snd (priv_identity_auth c isfile eng fs))"
          using True Some Raise by (intro identity_raise) simp_all
        show ?thesis unfolding step using True fl Cons by (simp add: upto_first_success_Cons)
      qed
    qed
  qed
qed

lemma identity_auth_all_fail:
  "\<forall>x\<in>set (map (pk_call c) (filter isfile ids)). attempt_fails eng x \<Longrightarrow>
   priv_identity_auth c isfile eng ids =
     (map (pk_call c) (filter isfile ids),
      Some (Inl (AuthenticationException [S ''No authentication methods succeeded''])))"
proof (induction ids)
  case Nil
  then show ?case by simp
next
  case (Cons f fs)
  show ?case
  proof (cases "isfile f")
    case False
    then have step: "priv_identity_auth c isfile eng (f # fs) = priv_identity_auth c isfile eng fs"
      by (rule identity_skip)
    show ?thesis unfolding step using False Cons by simp
  next
    case True
    with Cons.prems have "attempt_fails eng (pk_call c f)" by simp
    then obtain e where e: "priv_eagain (eng (pk_call c f)) = Some (Raise e)"
      by (auto simp: fails_pk)
    have step: "priv_identity_auth c isfile eng (f # fs) =
        (pk_call c f # fst (priv_identity_auth c isfile eng fs),
         snd (priv_identity_auth c isfile eng fs))"
      using True e by (rule identity_raise)
    from Cons.prems True have "\<forall>x\<in>set (map (pk_call c) (filter isfile fs)). attempt_fails eng x"
      by simp
    from Cons.IH[OF this] show ?thesis unfolding step using True by simp
  qed
qed

lemma identity_auth_some_success:
  "\<exists>x\<in>set (map (pk_call c) (filter isfile ids)). \<not> attempt_fails eng x \<Longrightarrow>
   snd (priv_identity_auth c isfile eng ids) = None
   \<or> snd (priv_identity_auth c isfile eng ids) = Some (Inr ())"
proof (induction ids)
  case Nil
  then show ?case by simp
next
  case (Cons f fs)
  show ?case
  proof (cases "isfile f")
    case False
    then have step: "priv_identity_auth c isfile eng (f # fs) = priv_identity_auth c isfile eng fs"
      by (rule identity_skip)
    show ?thesis unfolding step using False Cons by simp
  next
    case True
    show ?thesis
    proof (cases "priv_eagain (eng (pk_call c f))")
      case None
      have step: "priv_identity_auth c isfile eng (f # fs) = ([pk_call c f], None)"
        using True None by (rule identity_pending)
      show ?thesis unfolding step by simp
    next
      case (Some r)
      show ?thesis
      proof (cases r)
        case (Ret v)
        have step: "priv_identity_auth c isfile eng (f # fs) = ([pk_call c f], Some (Inr ()))"
          using True Some Ret by (intro identity_ret) simp_all
        show ?thesis unfolding step by simp
      next
        case (Raise e)
        with Some have fl: "attempt_fails eng (pk_call c f)" by (simp add: fails_pk)
        have step: "priv_identity_auth c isfile eng (f # fs) =
            (pk_call c f # fst (priv_identity_auth c isfile eng fs),
             snd (priv_identity_auth c isfile eng fs))"
          using True Some Raise by (intro identity_raise) simp_all
        from Cons.prems True fl
        have "\<exists>x\<in>set (map (pk_call c) (filter isfile fs)). \<not> attempt_fails eng x"
          by auto
        from Cons.IH[OF this] show ?thesis unfolding step by simp
      qed
    qed
  qed
qed


lemma aip_all_fail_nopw:
  assumes "\<forall>x\<in>set (map (pk_call c) (filter isfile ids)). attempt_fails eng x"
    and "password c = None"
  shows "auth_identity_password c ids isfile eng =
     (map (pk_call c) (filter isfile ids),
      Some (Inl (AuthenticationException [S ''No authentication methods succeeded''])))"
  unfolding auth_identity_password_def identity_auth_all_fail[OF assms(1)]
  using assms(2) by simp

lemma aip_all_fail_pw:
  assumes "\<forall>x\<in>set (map (pk_call c) (filter isfile ids)). attempt_fails eng x"
    and "password c = Some pw"
  shows "auth_identity_password c ids isfile eng =
     (map (pk_call c) (filter isfile ids) @ [Userauth_password (user c) pw],
      snd (priv_password_auth c pw eng))"
  unfolding auth_identity_password_def identity_auth_all_fail[OF assms(1)]
  using assms(2) by (simp add: priv_password_auth_def Let_def)

lemma aip_some_success:
  assumes "\<exists>x\<in>set (map (pk_call c) (filter isfile ids)). \<not> attempt_fails eng x"
  shows "auth_identity_password c ids isfile eng = priv_identity_auth c isfile eng ids"
proof -
  obtain tr r where p: "priv_identity_auth c isfile eng ids = (tr, r)"
    by (cases "priv_identity_auth c isfile eng ids") auto
  with identity_auth_some_success[OF assms] have "r = None \<or> r = Some (Inr ())" by simp
  then show ?thesis
  proof
    assume "r = None"
    with p show ?thesis by (simp add: auth_identity_password_def)
  next
    assume "r = Some (Inr ())"
    with p show ?thesis by (simp add: auth_identity_password_def)
  qed
qed

lemma auth_identity_password_trace:
  "fst (auth_identity_password c ids isfile eng)
     = upto_first_success (attempt_fails eng)
         (map (pk_call c) (filter isfile ids) @
          (case password c of None \<Rightarrow> [] | Some pw \<Rightarrow> [Userauth_password (user c) pw]))"
proof (cases "\<forall>x\<in>set (map (pk_call c) (filter isfile ids)). attempt_fails eng x")
  case True
  show ?thesis
  proof (cases "password c")
    case None
    show ?thesis
      unfolding aip_all_fail_nopw[OF True None] upto_first_success_append
      using True None by (simp add: upto_first_success_Nil)
  next
    case (Some pw)
    show ?thesis
      unfolding aip_all_fail_pw[OF True Some] upto_first_success_append
      using True Some by (simp add: upto_first_success_single)
  qed
next
  case False
  then have ex: "\<exists>x\<in>set (map (pk_call c) (filter isfile ids)). \<not> attempt_fails eng x"
    by blast
  show ?thesis
    unfolding aip_some_success[OF ex] upto_first_success_append identity_auth_trace
    using False by auto
qed

lemma auth_no_agent:
  "pkey c = None \<Longrightarrow> \<not> allow_agent c \<Longrightarrow>
   auth c ids isfile eng = auth_identity_password c ids isfile eng"
  by (simp add: auth_def)

lemma auth_agent_fails:
  "pkey c = None \<Longrightarrow> allow_agent c \<Longrightarrow> attempt_fails eng (Agent_auth (user c)) \<Longrightarrow>
   auth c ids isfile eng =
     (Agent_auth (user c) # fst (auth_identity_password c ids isfile eng),
      snd (auth_identity_password c ids isfile eng))"
  by (auto simp: auth_def split: list.splits ret.splits prod.splits)

lemma auth_agent_stops:
  "pkey c = None \<Longrightarrow> allow_agent c \<Longrightarrow> \<not> attempt_fails eng (Agent_auth (user c)) \<Longrightarrow>
   fst (auth c ids isfile eng) = [Agent_auth (user c)]"
  by (auto simp: auth_def split: list.splits ret.splits prod.splits)

lemma auth_trace:
  assumes "pkey c = None"
  shows "fst (auth c ids isfile eng)
     = upto_first_success (attempt_fails eng) (candidates c ids isfile)"
proof (cases "allow_agent c")
  case False
  show ?thesis
    unfolding auth_no_agent[OF assms False] auth_identity_password_trace candidates_def
    using False by simp
next
  case True
  show ?thesis
  proof (cases "attempt_fails eng (Agent_auth (user c))")
    case fl: True
    show ?thesis
      unfolding auth_agent_fails[OF assms True fl] auth_identity_password_trace candidates_def
      using True fl by (simp add: upto_first_success_Cons)
  next
    case nf: False
    show ?thesis
      unfolding auth_agent_stops[OF assms True nf] candidates_def
      using True nf by (simp add: upto_first_success_Cons)
  qed
qed


lemma auth_explicit_key:
  assumes "pkey c = Some pk"
  shows "fst (auth c ids isfile eng) = [pk_call c pk]"
    and "priv_eagain (eng (pk_call c pk)) = Some (Raise e) \<Longrightarrow>
         snd (auth c ids isfile eng) = Some (Inl e)"
  using assms by (simp_all add: auth_def priv_pkey_auth_def pk_call_def Let_def)

lemma auth_scenario:
  assumes "pkey c = None" "allow_agent c" "attempt_fails eng (Agent_auth (user c))"
    and "isfile f1" "isfile f2" "attempt_fails eng (pk_call c f1)"
    and "priv_eagain (eng (pk_call c f2)) = Some (Ret v)"
  shows "auth c (f1 # f2 # fs) isfile eng
     = ([Agent_auth (user c), pk_call c f1, pk_call c f2], Some (Inr ()))"
proof -
  from assms(6) obtain e where e: "priv_eagain (eng (pk_call c f1)) = Some (Raise e)"
    by (auto simp: fails_pk)
  have s2: "priv_identity_auth c isfile eng (f2 # fs) = ([pk_call c f2], Some (Inr ()))"
    using identity_ret[of isfile f2 eng c v fs] assms(5,7) by simp
  have s1: "priv_identity_auth c isfile eng (f1 # f2 # fs)
      = ([pk_call c f1, pk_call c f2], Some (Inr ()))"
    unfolding identity_raise[of isfile f1 eng c e "f2 # fs", OF assms(4) e] s2 by simp
  have "\<not> attempt_fails eng (pk_call c f2)"
    using assms(7) by (simp add: fails_pk)
  with assms(5)
  have ex: "\<exists>x\<in>set (map (pk_call c) (filter isfile (f1 # f2 # fs))). \<not> attempt_fails eng x"
    by auto
  show ?thesis
    unfolding auth_agent_fails[OF assms(1,2,3)] aip_some_success[OF ex] s1 by simp
qed

lemma password_fails:
  assumes "attempt_fails eng (Userauth_password (user c) pw)"
  shows "\<exists>e. snd (priv_password_auth c pw eng) = Some (Inl e) \<and> authentication_failure e"
  using assms
  by (auto simp: priv_password_auth_def authentication_failure_def Let_def
      split: option.splits ret.splits)

lemma aip_all_fail:
  assumes "\<forall>x\<in>set (map (pk_call c) (filter isfile ids) @
      (case password c of None \<Rightarrow> [] | Some pw \<Rightarrow> [Userauth_password (user c) pw])).
      attempt_fails eng x"
  shows "\<exists>e. snd (auth_identity_password c ids isfile eng) = Some (Inl e) \<and> authentication_failure e"
proof -
  from assms have a: "\<forall>x\<in>set (map (pk_call c) (filter isfile ids)). attempt_fails eng x"
    by simp
  show ?thesis
  proof (cases "password c")
    case None
    show ?thesis
      unfolding aip_all_fail_nopw[OF a None] by (simp add: authentication_failure_def)
  next
    case (Some pw)
    with assms have "attempt_fails eng (Userauth_password (user c) pw)" by simp
    from password_fails[OF this] show ?thesis
      unfolding aip_all_fail_pw[OF a Some] by simp
  qed
qed

lemma auth_all_fail:
  assumes "pkey c = None" "\<forall>x\<in>set (candidates c ids isfile). attempt_fails eng x"
  shows "\<exists>e. snd (auth c ids isfile eng) = Some (Inl e) \<and> authentication_failure e"
proof -
  from assms(2) have r: "\<forall>x\<in>set (map (pk_call c) (filter isfile ids) @
      (case password c of None \<Rightarrow> [] | Some pw \<Rightarrow> [Userauth_password (user c) pw])).
      attempt_fails eng x"
    by (simp add: candidates_def)
  show ?thesis
  proof (cases "allow_agent c")
    case False
    show ?thesis unfolding auth_no_agent[OF assms(1) False] by (rule aip_all_fail[OF r])
  next
    case True
    with assms(2) have "attempt_fails eng (Agent_auth (user c))"
      by (simp add: candidates_def)
    from auth_agent_fails[OF assms(1) True this] aip_all_fail[OF r]
    show ?thesis by simp
  qed
qed

lemma init_wraps:
  assumes "snd (auth c ids isfile eng) = Some (Inl e)" "authentication_failure e"
  shows "\<exists>a. priv_init c (Ret v) ids isfile eng = Some (Inl (AuthenticationException a))"
proof (cases "e = AuthenticationError")
  case True
  with assms(1) show ?thesis by (simp add: priv_init_def)
next
  case False
  with assms(2) obtain a where "e = AuthenticationException a"
    by (cases e) (simp_all add: authentication_failure_def)
  with assms(1) show ?thesis by (simp add: priv_init_def)
qed

text \<open>
  Claim C4: the order of the authentication chain. With an explicit key, that key is
  the only attempt and its failure is raised as it is. Without one, the attempts are
  the candidates (agent if allowed, identity files that exist in their order, password
  if supplied) up to and with the first that does not fail, so the password is
  attempted only after every public key attempt has failed. When the agent and the
  first identity file fail and the second identity file succeeds, the attempts are
  exactly agent, first file, second file, and the chain succeeds. When every candidate
  fails, the chain raises an authentication failure, which \<^verbatim>\<open>_init\<close> gives to the
  caller as \<^verbatim>\<open>AuthenticationException\<close>.
\<close>

theorem auth_chain_order:
  "(pkey c = Some pk \<longrightarrow>
      fst (auth c ids isfile eng) = [pk_call c pk]
      \<and> (\<forall>e. priv_eagain (eng (pk_call c pk)) = Some (Raise e) \<longrightarrow>
            snd (auth c ids isfile eng) = Some (Inl e)))
   \<and> (pkey c = None \<longrightarrow>
      fst (auth c ids isfile eng)
        = upto_first_success (attempt_fails eng) (candidates c ids isfile))
   \<and> (pkey c = None \<and> allow_agent c \<and> attempt_fails eng (Agent_auth (user c))
       \<and> isfile f1 \<and> isfile f2 \<and> attempt_fails eng (pk_call c f1)
       \<and> priv_eagain (eng (pk_call c f2)) = Some (Ret v) \<longrightarrow>
      auth c (f1 # f2 # fs) isfile eng
        = ([Agent_auth (user c), pk_call c f1, pk_call c f2], Some (Inr ())))
   \<and> (pkey c = None \<and> (\<forall>x\<in>set (candidates c ids isfile). attempt_fails eng x) \<longrightarrow>
      (\<exists>e. snd (auth c ids isfile eng) = Some (Inl e) \<and> authentication_failure e)
      \<and> (\<exists>a. priv_init c (Ret 0) ids isfile eng = Some (Inl (AuthenticationException a))))"
proof (intro conjI impI allI)
  assume "pkey c = Some pk"
  then show "fst (auth c ids isfile eng) = [pk_call c pk]" by (rule auth_explicit_key(1))
next
  fix e
  assume "pkey c = Some pk" "priv_eagain (eng (pk_call c pk)) = Some (Raise e)"
  then show "snd (auth c ids isfile eng) = Some (Inl e)" by (rule auth_explicit_key(2))
next
  assume "pkey c = None"
  then show "fst (auth c ids isfile eng)
      = upto_first_success (attempt_fails eng) (candidates c ids isfile)"
    by (rule auth_trace)
next
  assume "pkey c = None \<and> allow_agent c \<and> attempt_fails eng (Agent_auth (user c))
       \<and> isfile f1 \<and> isfile f2 \<and> attempt_fails eng (pk_call c f1)
       \<and> priv_eagain (eng (pk_call c f2)) = Some (Ret v)"
  then show "auth c (f1 # f2 # fs) isfile eng
        = ([Agent_auth (user c), pk_call c f1, pk_call c f2], Some (Inr ()))"
    by (intro auth_scenario) simp_all
next
  assume a: "pkey c = None \<and> (\<forall>x\<in>set (candidates c ids isfile). attempt_fails eng x)"
  then show "\<exists>e. snd (auth c ids isfile eng) = Some (Inl e) \<and> authentication_failure e"
    by (intro auth_all_fail) simp_all
next
  assume a: "pkey c = None \<and> (\<forall>x\<in>set (candidates c ids isfile). attempt_fails eng x)"
  then have "\<exists>e. snd (auth c ids isfile eng) = Some (Inl e) \<and> authentication_failure e"
    by (intro auth_all_fail) simp_all
  then show "\<exists>a. priv_init c (Ret 0) ids isfile eng = Some (Inl (AuthenticationException a))"
    using init_wraps by blast
qed

theorem auth_chain_order_witness:
  "auth example_client [''id_rsa'', ''id_dsa'', ''identity''] (\<lambda>f. True) second_key_engine
     = ([Agent_auth ''alice'',
         Userauth_publickey_fromfile ''alice'' ''id_rsa.pub'' ''id_rsa'' ''secret'',
         Userauth_publickey_fromfile ''alice'' ''id_dsa.pub'' ''id_dsa'' ''secret''],
        Some (Inr ()))
   \<and> fst (auth (example_client\<lparr>pkey := Some ''key''\<rparr>) [''id_rsa''] (\<lambda>f. True) refusing_engine)
     = [Userauth_publickey_fromfile ''alice'' ''key.pub'' ''key'' ''secret'']
   \<and> snd (auth (example_client\<lparr>pkey := Some ''key''\<rparr>) [''id_rsa''] (\<lambda>f. True) refusing_engine)
     = Some (Inl AuthenticationError)
   \<and> fst (auth example_client [''id_rsa'', ''id_dsa''] (\<lambda>f. True) refusing_engine)
     = [Agent_auth ''alice'',
        Userauth_publickey_fromfile ''alice'' ''id_rsa.pub'' ''id_rsa'' ''secret'',
        Userauth_publickey_fromfile ''alice'' ''id_dsa.pub'' ''id_dsa'' ''secret'',
        Userauth_password ''alice'' ''secret'']
   \<and> (\<exists>a. priv_init example_client (Ret 0) [''id_rsa'', ''id_dsa''] (\<lambda>f. True) refusing_engine
          = Some (Inl (AuthenticationException a)))"
proof -
  let ?k = "example_client\<lparr>pkey := Some ''key''\<rparr>"
  have h3: "pkey example_client = None \<and> allow_agent example_client
      \<and> attempt_fails second_key_engine (Agent_auth (user example_client))
      \<and> (\<lambda>f. True) ''id_rsa'' \<and> (\<lambda>f. True) ''id_dsa''
      \<and> attempt_fails second_key_engine (pk_call example_client ''id_rsa'')
      \<and> priv_eagain (second_key_engine (pk_call example_client ''id_dsa'')) = Some (Ret 0)"
    by (simp add: example_client_def second_key_engine_def pk_call_def passphrase_def
        LIBSSH2_ERROR_EAGAIN_def)
  have c3: "auth example_client [''id_rsa'', ''id_dsa'', ''identity''] (\<lambda>f. True) second_key_engine
     = ([Agent_auth (user example_client), pk_call example_client ''id_rsa'',
         pk_call example_client ''id_dsa''], Some (Inr ()))"
    using auth_chain_order
      [where c = example_client and eng = second_key_engine and isfile = "\<lambda>f. True"
         and ?f1.0 = "''id_rsa''" and ?f2.0 = "''id_dsa''" and fs = "[''identity'']" and v = 0]
      h3 by blast
  have h1: "pkey ?k = Some ''key''" by (simp add: example_client_def)
  have h1': "priv_eagain (refusing_engine (pk_call ?k ''key'')) = Some (Raise AuthenticationError)"
    by (simp add: example_client_def refusing_engine_def pk_call_def passphrase_def
        LIBSSH2_ERROR_EAGAIN_def)
  have c1: "fst (auth ?k [''id_rsa''] (\<lambda>f. True) refusing_engine) = [pk_call ?k ''key'']
      \<and> snd (auth ?k [''id_rsa''] (\<lambda>f. True) refusing_engine) = Some (Inl AuthenticationError)"
    using auth_chain_order
      [where c = ?k and pk = "''key''" and eng = refusing_engine and isfile = "\<lambda>f. True"
         and ids = "[''id_rsa'']"]
      h1 h1' by blast
  have cand: "candidates example_client [''id_rsa'', ''id_dsa''] (\<lambda>f. True)
      = [Agent_auth ''alice'',
         Userauth_publickey_fromfile ''alice'' ''id_rsa.pub'' ''id_rsa'' ''secret'',
         Userauth_publickey_fromfile ''alice'' ''id_dsa.pub'' ''id_dsa'' ''secret'',
         Userauth_password ''alice'' ''secret'']"
    by (simp add: candidates_def example_client_def pk_call_def passphrase_def)
  have h4: "pkey example_client = None
      \<and> (\<forall>x\<in>set (candidates example_client [''id_rsa'', ''id_dsa''] (\<lambda>f. True)).
            attempt_fails refusing_engine x)"
    unfolding cand
    by (simp add: example_client_def refusing_engine_def LIBSSH2_ERROR_EAGAIN_def)
  have c4: "fst (auth example_client [''id_rsa'', ''id_dsa''] (\<lambda>f. True) refusing_engine)
        = upto_first_success (attempt_fails refusing_engine)
            (candidates example_client [''id_rsa'', ''id_dsa''] (\<lambda>f. True))
      \<and> (\<exists>a. priv_init example_client (Ret 0) [''id_rsa'', ''id_dsa''] (\<lambda>f. True) refusing_engine
          = Some (Inl (AuthenticationException a)))"
    using auth_chain_order
      [where c = example_client and eng = refusing_engine and isfile = "\<lambda>f. True"
         and ids = "[''id_rsa'', ''id_dsa'']"]
      h4 by blast
  have u: "upto_first_success (attempt_fails refusing_engine)
      [Agent_auth ''alice'',
       Userauth_publickey_fromfile ''alice'' ''id_rsa.pub'' ''id_rsa'' ''secret'',
       Userauth_publickey_fromfile ''alice'' ''id_dsa.pub'' ''id_dsa'' ''secret'',
       Userauth_password ''alice'' ''secret'']
     = [Agent_auth ''alice'',
       Userauth_publickey_fromfile ''alice'' ''id_rsa.pub'' ''id_rsa'' ''secret'',
       Userauth_publickey_fromfile ''alice'' ''id_dsa.pub'' ''id_dsa'' ''secret'',
       Userauth_password ''alice'' ''secret'']"
    by (simp add: upto_first_success_def refusing_engine_def LIBSSH2_ERROR_EAGAIN_def)
  have n: "user example_client = ''alice''"
    "pk_call example_client ''id_rsa''
       = Userauth_publickey_fromfile ''alice'' ''id_rsa.pub'' ''id_rsa'' ''secret''"
    "pk_call example_client ''id_dsa''
       = Userauth_publickey_fromfile ''alice'' ''id_dsa.pub'' ''id_dsa'' ''secret''"
    "pk_call ?k ''key'' = Userauth_publickey_fromfile ''alice'' ''key.pub'' ''key'' ''secret''"
    by (simp_all add: example_client_def pk_call_def passphrase_def)
  from c3 c1 c4 show ?thesis
    unfolding cand u n by blast
qed

section \<open>Properties of connecting\<close>

lemma connect_success_now:
  "outcomes retries = None \<Longrightarrow> priv_connect c outcomes retries = (1, Inr ())"
  by (subst priv_connect.simps) simp

lemma connect_retry:
  "outcomes retries = Some args \<Longrightarrow> retries < num_retries c \<Longrightarrow>
   priv_connect c outcomes retries =
     (Suc (fst (priv_connect c outcomes (retries + 1))), snd (priv_connect c outcomes (retries + 1)))"
  by (subst priv_connect.simps) (simp split: prod.splits)

lemma connect_give_up:
  "outcomes retries = Some args \<Longrightarrow> \<not> retries < num_retries c \<Longrightarrow> args \<noteq> [] \<Longrightarrow>
   priv_connect c outcomes retries =
     (1, Inl (ConnectionErrorException
        [S connect_error_format, S (host c), I (port c), S (sockarg_str (error_type args)),
         I retries, I (num_retries c)]))"
  by (subst priv_connect.simps)
     (auto simp: error_type_def split: list.splits simp: nth_Cons' drop_Suc neq_Nil_conv)

lemma connect_first_success:
  "retries \<le> k \<Longrightarrow> k \<le> num_retries c \<Longrightarrow>
   (\<forall>j. retries \<le> j \<and> j < k \<longrightarrow> outcomes j \<noteq> None) \<Longrightarrow> outcomes k = None \<Longrightarrow>
   priv_connect c outcomes retries = (nat (k - retries + 1), Inr ())"
proof (induction "nat (k - retries)" arbitrary: retries)
  case 0
  then have "retries = k" by simp
  with 0 show ?case by (simp add: connect_success_now)
next
  case (Suc n)
  then have lt: "retries < k" by linarith
  with Suc.prems obtain args where a: "outcomes retries = Some args" by auto
  have r: "retries < num_retries c" using lt Suc.prems by simp
  have "priv_connect c outcomes (retries + 1) = (nat (k - (retries + 1) + 1), Inr ())"
    using Suc.hyps(2) Suc.prems lt by (intro Suc.hyps(1)) auto
  then show ?case
    unfolding connect_retry[of outcomes retries args c, OF a r] using lt by (simp add: Suc_nat_eq_nat_zadd1)
qed

lemma connect_all_fail:
  "retries \<le> num_retries c \<Longrightarrow>
   (\<forall>j. retries \<le> j \<and> j < num_retries c \<longrightarrow> outcomes j \<noteq> None) \<Longrightarrow>
   outcomes (num_retries c) = Some args \<Longrightarrow> args \<noteq> [] \<Longrightarrow>
   priv_connect c outcomes retries =
     (nat (num_retries c - retries + 1),
      Inl (ConnectionErrorException
        [S connect_error_format, S (host c), I (port c), S (sockarg_str (error_type args)),
         I (num_retries c), I (num_retries c)]))"
proof (induction "nat (num_retries c - retries)" arbitrary: retries)
  case 0
  then have "retries = num_retries c" by simp
  with 0 show ?case by (simp add: connect_give_up)
next
  case (Suc n)
  then have lt: "retries < num_retries c" by linarith
  with Suc.prems obtain a where a: "outcomes retries = Some a" by auto
  have "priv_connect c outcomes (retries + 1) =
     (nat (num_retries c - (retries + 1) + 1),
      Inl (ConnectionErrorException
        [S connect_error_format, S (host c), I (port c), S (sockarg_str (error_type args)),
         I (num_retries c), I (num_retries c)]))"
    using Suc.hyps(2) Suc.prems lt by (intro Suc.hyps(1)) auto
  then show ?case
    unfolding connect_retry[of outcomes retries a c, OF a lt] using lt by (simp add: Suc_nat_eq_nat_zadd1)
qed

lemma connect_at_most:
  "retries \<le> num_retries c \<Longrightarrow>
   fst (priv_connect c outcomes retries) \<le> nat (num_retries c - retries + 1)"
proof (induction "nat (num_retries c - retries)" arbitrary: retries)
  case 0
  then have e: "retries = num_retries c" by simp
  show ?case
    by (subst priv_connect.simps) (simp add: e split: option.splits list.splits)
next
  case (Suc n)
  then have lt: "retries < num_retries c" by linarith
  show ?case
  proof (cases "outcomes retries")
    case None
    then show ?thesis using lt by (simp add: connect_success_now)
  next
    case (Some a)
    have "fst (priv_connect c outcomes (retries + 1)) \<le> nat (num_retries c - (retries + 1) + 1)"
      using Suc.hyps(2) lt by (intro Suc.hyps(1)) auto
    then show ?thesis
      unfolding connect_retry[of outcomes retries a c, OF Some lt] using lt by simp
  qed
qed

text \<open>
  Claim C5, as amended: for \<open>num_retries \<ge> 1\<close> and every sequence of connect outcomes,
  at most \<open>num_retries\<close> connect calls are made; when the \<open>k\<close>-th call is the first to
  succeed, with \<open>k \<le> num_retries\<close>, the client has connected after exactly \<open>k\<close> calls;
  when the first \<open>num_retries\<close> calls all fail, \<^verbatim>\<open>ConnectionErrorException\<close> is raised
  after exactly \<open>num_retries\<close> calls, and it carries the host, the port, the attempt
  count, \<open>num_retries\<close> and the text of the last socket error's second argument (its
  only argument when it has one): for an operating system error \<open>(errno, strerror)\<close>
  that is the message \<open>strerror\<close>, not the code \<open>errno\<close>.
\<close>

theorem connect_bounded_retry:
  "1 \<le> num_retries c \<longrightarrow>
     fst (priv_connect c outcomes 1) \<le> nat (num_retries c)
     \<and> (1 \<le> k \<and> k \<le> num_retries c \<and> (\<forall>j. 1 \<le> j \<and> j < k \<longrightarrow> outcomes j \<noteq> None)
          \<and> outcomes k = None \<longrightarrow>
        priv_connect c outcomes 1 = (nat k, Inr ()))
     \<and> ((\<forall>j. 1 \<le> j \<and> j < num_retries c \<longrightarrow> outcomes j \<noteq> None)
          \<and> outcomes (num_retries c) = Some args \<and> args \<noteq> [] \<longrightarrow>
        priv_connect c outcomes 1 =
          (nat (num_retries c),
           Inl (ConnectionErrorException
             [S connect_error_format, S (host c), I (port c),
              S (sockarg_str (error_type args)), I (num_retries c), I (num_retries c)])))"
proof (intro impI conjI)
  assume "1 \<le> num_retries c"
  from connect_at_most[OF this, of outcomes]
  show "fst (priv_connect c outcomes 1) \<le> nat (num_retries c)" by simp
next
  assume "1 \<le> num_retries c"
    and a: "1 \<le> k \<and> k \<le> num_retries c \<and> (\<forall>j. 1 \<le> j \<and> j < k \<longrightarrow> outcomes j \<noteq> None)
          \<and> outcomes k = None"
  then have "priv_connect c outcomes 1 = (nat (k - 1 + 1), Inr ())"
    by (intro connect_first_success) simp_all
  then show "priv_connect c outcomes 1 = (nat k, Inr ())" by simp
next
  assume n: "1 \<le> num_retries c"
    and a: "(\<forall>j. 1 \<le> j \<and> j < num_retries c \<longrightarrow> outcomes j \<noteq> None)
          \<and> outcomes (num_retries c) = Some args \<and> args \<noteq> []"
  then have "priv_connect c outcomes 1 =
     (nat (num_retries c - 1 + 1),
      Inl (ConnectionErrorException
        [S connect_error_format, S (host c), I (port c), S (sockarg_str (error_type args)),
         I (num_retries c), I (num_retries c)]))"
    by (intro connect_all_fail) simp_all
  then show "priv_connect c outcomes 1 =
          (nat (num_retries c),
           Inl (ConnectionErrorException
             [S connect_error_format, S (host c), I (port c),
              S (sockarg_str (error_type args)), I (num_retries c), I (num_retries c)]))"
    by simp
qed

theorem connect_bounded_retry_witness:
  "priv_connect example_client refused_twice 1 = (3, Inr ())
   \<and> priv_connect (example_client\<lparr>num_retries := 2\<rparr>) refused_twice 1 =
       (2, Inl (ConnectionErrorException
          [S connect_error_format, S ''example.org'', I 22, S ''Connection refused'', I 2, I 2]))"
proof -
  let ?c2 = "example_client\<lparr>num_retries := 2\<rparr>"
  have n3: "1 \<le> num_retries example_client" by (simp add: example_client_def)
  have h3: "1 \<le> (3::int) \<and> 3 \<le> num_retries example_client
      \<and> (\<forall>j. 1 \<le> j \<and> j < 3 \<longrightarrow> refused_twice j \<noteq> None) \<and> refused_twice 3 = None"
    by (simp add: example_client_def refused_twice_def)
  have a: "priv_connect example_client refused_twice 1 = (nat 3, Inr ())"
    using connect_bounded_retry[of example_client refused_twice 3] n3 h3 by blast
  have n2: "1 \<le> num_retries ?c2" by simp
  have h2: "(\<forall>j. 1 \<le> j \<and> j < num_retries ?c2 \<longrightarrow> refused_twice j \<noteq> None)
      \<and> refused_twice (num_retries ?c2) = Some [SockInt 111, SockStr ''Connection refused'']
      \<and> [SockInt 111, SockStr ''Connection refused''] \<noteq> []"
    by (simp add: refused_twice_def)
  have b: "priv_connect ?c2 refused_twice 1 =
      (nat (num_retries ?c2),
       Inl (ConnectionErrorException
         [S connect_error_format, S (host ?c2), I (port ?c2),
          S (sockarg_str (error_type [SockInt 111, SockStr ''Connection refused''])),
          I (num_retries ?c2), I (num_retries ?c2)]))"
    using connect_bounded_retry
      [of ?c2 refused_twice _ "[SockInt 111, SockStr ''Connection refused'']"] n2 h2
    by blast
  have e: "sockarg_str (error_type [SockInt 111, SockStr ''Connection refused''])
      = ''Connection refused''"
    by (simp add: error_type_def sockarg_str_def)
  from a b show ?thesis
    unfolding e by (simp add: example_client_def)
qed

text \<open>
  Claim C5 as it is stated fails where it says that the exception carries the operating
  system's error code: when every connection is refused with the error
  \<open>(111, "Connection refused")\<close> and \<open>num_retries\<close> is \<open>2\<close>, the exception carries the
  message \<^verbatim>\<open>Connection refused\<close> and not the code \<^verbatim>\<open>111\<close>.
\<close>

theorem connect_error_code_counterexample:
  "priv_connect (example_client\<lparr>num_retries := 2\<rparr>) always_refused 1 =
     (2, Inl (ConnectionErrorException
        [S connect_error_format, S ''example.org'', I 22, S ''Connection refused'', I 2, I 2]))
   \<and> priv_connect (example_client\<lparr>num_retries := 2\<rparr>) always_refused 1 \<noteq>
     (2, Inl (ConnectionErrorException
        [S connect_error_format, S ''example.org'', I 22, S (sockarg_str (SockInt 111)),
         I 2, I 2]))"
proof -
  let ?c2 = "example_client\<lparr>num_retries := 2\<rparr>"
  have "priv_connect ?c2 always_refused 1 =
      (nat (num_retries ?c2 - 1 + 1),
       Inl (ConnectionErrorException
         [S connect_error_format, S (host ?c2), I (port ?c2),
          S (sockarg_str (error_type [SockInt 111, SockStr ''Connection refused''])),
          I (num_retries ?c2), I (num_retries ?c2)]))"
    by (intro connect_all_fail) (simp_all add: always_refused_def)
  moreover have "sockarg_str (SockInt 111) \<noteq> ''Connection refused''"
    by (simp add: sockarg_str_def int_str_def nat_str.simps)
  ultimately show ?thesis
    by (simp add: example_client_def error_type_def sockarg_str_def)
qed

section \<open>Properties of directory creation\<close>








lemma exists_remote_upd [simp]:
  "exists_remote (s\<lparr>calls := cs, errno := e\<rparr>) p = exists_remote s p"
  by (simp add: exists_remote_def)





























section \<open>Properties of the handle opener\<close>

lemma sftp_openfh_error:
  "code \<noteq> LIBSSH2_ERROR_EAGAIN \<Longrightarrow>
   priv_sftp_openfh remote_file (replicate n (None, LIBSSH2_ERROR_EAGAIN) @ [(fh, code)])
   = Some (Inl (SFTPError
       [S ''Error opening file handle for file %s - error no: %s'', S remote_file, I code]))"
  by (induction n) auto

lemma sftp_openfh_handle:
  "priv_sftp_openfh remote_file
     (replicate n (None, LIBSSH2_ERROR_EAGAIN) @ [(Some h, LIBSSH2_ERROR_EAGAIN)])
   = Some (Inr (Some h))"
  by (induction n) auto

text \<open>
  Claim C3, at an engine whose first call of the open function returns a handle, when
  the session has recorded no error (\<^verbatim>\<open>last_errno()\<close> is \<open>0\<close>): the helper raises
  \<^verbatim>\<open>SFTPError\<close> with the path and the code \<open>0\<close>, and the handle is lost. It returns the
  handle only when \<^verbatim>\<open>last_errno()\<close> is the would-block code at that moment.
\<close>

theorem sftp_openfh_raises_with_handle:
  "priv_sftp_openfh ''f.txt'' [(Some ''f.txt'', 0)]
   = Some (Inl (SFTPError
       [S ''Error opening file handle for file %s - error no: %s'', S ''f.txt'', I 0]))
   \<and> priv_sftp_openfh ''f.txt'' [(None, LIBSSH2_ERROR_EAGAIN), (Some ''f.txt'', LIBSSH2_ERROR_EAGAIN)]
   = Some (Inr (Some ''f.txt''))"
  by (simp add: LIBSSH2_ERROR_EAGAIN_def)

section \<open>Properties of copying a file\<close>

lemma py_lines_aux_concat: "concat (py_lines_aux cur xs) = cur @ xs"
  by (induction xs arbitrary: cur) auto

lemma py_lines_concat: "concat (py_lines content) = content"
  by (simp add: py_lines_def py_lines_aux_concat)

lemma chunks_of_concat: "0 < n \<Longrightarrow> concat (chunks_of n xs) = xs"
proof (induction n xs rule: chunks_of.induct)
  case (1 n xs)
  show ?case
  proof (cases "xs = []")
    case True
    then show ?thesis by (subst chunks_of.simps) simp
  next
    case False
    with 1 show ?thesis by (subst chunks_of.simps) simp
  qed
qed

lemma fold_remote_write:
  "files s fh = Some old \<Longrightarrow>
   files (fold (remote_write fh) ds s) fh = Some (old @ concat ds)"
  by (induction ds arbitrary: s old) (simp_all add: remote_write_def)

lemma fold_remote_write_keeps:
  "read_size (fold (remote_write fh) ds s) = read_size s"
  "wouldblock (fold (remote_write fh) ds s) = wouldblock s"
  "errno (fold (remote_write fh) ds s) = errno s"
  "dirs (fold (remote_write fh) ds s) = dirs s"
  by (induction ds arbitrary: s) (simp_all add: remote_write_def)

lemma fold_local_write:
  "l f = Some old \<Longrightarrow>
   fold (local_write f) (map chunk cs) l f = Some (old @ concat cs)"
  by (induction cs arbitrary: l old) (simp_all add: local_write_def chunk_def)

lemma open_script_handle:
  "0 < wouldblock s \<or> errno s = LIBSSH2_ERROR_EAGAIN \<Longrightarrow>
   priv_sftp_openfh remote_file (open_script s (Some h)) = Some (Inr (Some h))
   \<and> snd (last (open_script s (Some h))) = LIBSSH2_ERROR_EAGAIN"
  using sftp_openfh_handle[of remote_file "wouldblock s" h]
  by (auto simp: open_script_def)

lemma write_flag:
  "(LIBSSH2_FXF_CREAT OR LIBSSH2_FXF_WRITE OR LIBSSH2_FXF_TRUNC) AND LIBSSH2_FXF_WRITE \<noteq> 0"
  by (simp add: LIBSSH2_FXF_CREAT_def LIBSSH2_FXF_WRITE_def LIBSSH2_FXF_TRUNC_def)

lemma read_flag: "(0::int) AND LIBSSH2_FXF_WRITE = 0"
  by simp

lemma sftp_put_ok:
  assumes "0 < wouldblock s \<or> errno s = LIBSSH2_ERROR_EAGAIN"
    and "l local_file = Some content" and "remote_file \<notin> set (dirs s)"
  shows "fst (sftp_put s l local_file remote_file) = Some (Inr ())"
    and "files (snd (sftp_put s l local_file remote_file)) remote_file = Some content"
    and "errno (snd (sftp_put s l local_file remote_file)) = LIBSSH2_ERROR_EAGAIN"
    and "read_size (snd (sftp_put s l local_file remote_file)) = read_size s"
    and "wouldblock (snd (sftp_put s l local_file remote_file)) = wouldblock s"
proof -
  let ?flags = "LIBSSH2_FXF_CREAT OR LIBSSH2_FXF_WRITE OR LIBSSH2_FXF_TRUNC"
  let ?mode = "LIBSSH2_SFTP_S_IRUSR OR LIBSSH2_SFTP_S_IWUSR OR LIBSSH2_SFTP_S_IRGRP OR
                 LIBSSH2_SFTP_S_IROTH"
  let ?s1 = "s\<lparr>files := (files s)(remote_file \<mapsto> []),
      calls := calls s @ [Open remote_file ?flags ?mode], errno := LIBSSH2_ERROR_EAGAIN\<rparr>"
  have eo: "engine_open s remote_file ?flags
      = (Some remote_file, s\<lparr>files := (files s)(remote_file \<mapsto> [])\<rparr>)"
    using assms(3) write_flag by (simp add: engine_open_def)
  have op: "openfh s remote_file ?flags ?mode = (Some (Inr (Some remote_file)), ?s1)"
    using open_script_handle[OF assms(1), of remote_file remote_file]
    by (simp add: openfh_def eo)
  have put: "sftp_put s l local_file remote_file
      = (Some (Inr ()), fold (remote_write remote_file) (py_lines content) ?s1)"
    by (simp add: sftp_put_def op assms(2) Let_def)
  show "fst (sftp_put s l local_file remote_file) = Some (Inr ())"
    by (simp add: put)
  from fold_remote_write[of ?s1 remote_file "[]" "py_lines content"]
  show "files (snd (sftp_put s l local_file remote_file)) remote_file = Some content"
    by (simp add: put py_lines_concat)
  show "errno (snd (sftp_put s l local_file remote_file)) = LIBSSH2_ERROR_EAGAIN"
    by (simp add: put fold_remote_write_keeps)
  show "read_size (snd (sftp_put s l local_file remote_file)) = read_size s"
    by (simp add: put fold_remote_write_keeps)
  show "wouldblock (snd (sftp_put s l local_file remote_file)) = wouldblock s"
    by (simp add: put fold_remote_write_keeps)
qed

lemma sftp_get_ok:
  assumes "0 < wouldblock s \<or> errno s = LIBSSH2_ERROR_EAGAIN"
    and "files s remote_file = Some content" and "0 < read_size s"
  shows "fst (sftp_get s l remote_file local_file) = Some (Inr ())"
    and "snd (snd (sftp_get s l remote_file local_file)) local_file = Some content"
proof -
  let ?s1 = "s\<lparr>calls := calls s @ [Open remote_file 0 0], errno := LIBSSH2_ERROR_EAGAIN\<rparr>"
  have eo: "engine_open s remote_file 0 = (Some remote_file, s)"
    using assms(2) by (simp add: engine_open_def)
  have op: "openfh s remote_file 0 0 = (Some (Inr (Some remote_file)), ?s1)"
    using open_script_handle[OF assms(1), of remote_file remote_file]
    by (simp add: openfh_def eo)
  have rr: "remote_reads ?s1 remote_file = map chunk (chunks_of (read_size s) content)"
    using assms(2) by (simp add: remote_reads_def)
  have get: "sftp_get s l remote_file local_file
      = (Some (Inr ()), ?s1,
         fold (local_write local_file) (map chunk (chunks_of (read_size s) content))
           (l(local_file \<mapsto> [])))"
    by (simp add: sftp_get_def op rr Let_def)
  show "fst (sftp_get s l remote_file local_file) = Some (Inr ())"
    by (simp add: get)
  from fold_local_write[of "l(local_file \<mapsto> [])" local_file "[]"
      "chunks_of (read_size s) content"]
  show "snd (snd (sftp_get s l remote_file local_file)) local_file = Some content"
    by (simp add: get chunks_of_concat[OF assms(3)])
qed

lemma put_get_roundtrip_after_would_block:
  assumes "0 < wouldblock s \<or> errno s = LIBSSH2_ERROR_EAGAIN" and "0 < read_size s"
    and "l local_file = Some content" and "remote_file \<notin> set (dirs s)"
  shows "fst (sftp_put s l local_file remote_file) = Some (Inr ())"
    and "fst (sftp_get (snd (sftp_put s l local_file remote_file)) l' remote_file local_file2)
          = Some (Inr ())"
    and "snd (snd (sftp_get (snd (sftp_put s l local_file remote_file)) l' remote_file local_file2))
          local_file2 = Some content"
proof -
  let ?s1 = "snd (sftp_put s l local_file remote_file)"
  note p = sftp_put_ok[of s l local_file content remote_file, OF assms(1,3,4)]
  show "fst (sftp_put s l local_file remote_file) = Some (Inr ())" by (rule p(1))
  have e: "0 < wouldblock ?s1 \<or> errno ?s1 = LIBSSH2_ERROR_EAGAIN" using p(3) by simp
  have rs: "0 < read_size ?s1" using p(4) assms(2) by simp
  show "fst (sftp_get ?s1 l' remote_file local_file2) = Some (Inr ())"
    by (rule sftp_get_ok(1)[OF e p(2) rs])
  show "snd (snd (sftp_get ?s1 l' remote_file local_file2)) local_file2 = Some content"
    by (rule sftp_get_ok(2)[OF e p(2) rs])
qed

lemma sftp_put_raises_without_would_block:
  assumes "wouldblock s = 0" "errno s \<noteq> LIBSSH2_ERROR_EAGAIN" "remote_file \<notin> set (dirs s)"
  shows "fst (sftp_put s l local_file remote_file)
     = Some (Inl (SFTPError
         [S ''Error opening file handle for file %s - error no: %s'', S remote_file,
          I (errno s)]))"
proof -
  let ?flags = "LIBSSH2_FXF_CREAT OR LIBSSH2_FXF_WRITE OR LIBSSH2_FXF_TRUNC"
  have eo: "engine_open s remote_file ?flags
      = (Some remote_file, s\<lparr>files := (files s)(remote_file \<mapsto> [])\<rparr>)"
    using assms(3) write_flag by (simp add: engine_open_def)
  show ?thesis
    using assms(1,2) by (simp add: sftp_put_def openfh_def eo open_script_def Let_def)
qed

text \<open>
  Claim C6, at the absolute destination \<^verbatim>\<open>/a/b/f.txt\<close> on a server without directories:
  \<^verbatim>\<open>_remote_paths_split\<close> drops the leading separator, so the directory that is probed
  and created is the relative \<^verbatim>\<open>a/b\<close>, while the file that is opened is
  \<^verbatim>\<open>/a/b/f.txt\<close>, whose directory \<^verbatim>\<open>/a/b\<close> has been neither probed nor created. For the
  relative destination \<^verbatim>\<open>a/b/f.txt\<close> the two directories are the same.
\<close>

theorem copy_file_absolute_parent_not_created:
  "priv_remote_paths_split ''/a/b/f.txt'' = ''a/b''
   \<and> parent_dir ''/a/b/f.txt'' = ''/a/b''
   \<and> calls (snd (copy_file example_client empty_remote example_local ''notes.txt'' ''/a/b/f.txt''))
       = [Stat ''a/b'', Stat ''a'', Mkdir ''a'' 493, Stat ''a/b'', Mkdir ''a/b'' 493,
          Open ''/a/b/f.txt'' 26 420]
   \<and> dirs (snd (copy_file example_client empty_remote example_local ''notes.txt'' ''/a/b/f.txt''))
       = [''a'', ''a/b'']
   \<and> exists_remote
         (snd (copy_file example_client empty_remote example_local ''notes.txt'' ''/a/b/f.txt''))
         ''/a/b'' = False
   \<and> priv_remote_paths_split ''a/b/f.txt'' = parent_dir ''a/b/f.txt''"
  by code_simp

text \<open>
  Claim C8, at an engine without errors that answers every call at once (no call has
  reported would-block, \<^verbatim>\<open>last_errno()\<close> is \<open>0\<close>): \<^verbatim>\<open>sftp_put\<close> raises \<^verbatim>\<open>SFTPError\<close>
  from the handle opener although the engine has opened the file, and nothing is
  written. On the engine that reports would-block once for every call, the put followed
  by the get gives back the content of the file.
\<close>

theorem put_raises_on_engine_without_would_block:
  "fst (sftp_put idle_remote example_local ''notes.txt'' ''f.txt'')
     = Some (Inl (SFTPError
         [S ''Error opening file handle for file %s - error no: %s'', S ''f.txt'', I 0]))
   \<and> files (snd (sftp_put idle_remote example_local ''notes.txt'' ''f.txt'')) ''f.txt'' = Some []
   \<and> snd (snd (sftp_get (snd (sftp_put empty_remote example_local ''notes.txt'' ''f.txt''))
         example_local ''f.txt'' ''copy.txt'')) ''copy.txt''
     = Some (''hello'' @ [CHR 0x0A] @ ''world!'')"
  by code_simp

section \<open>Properties of the command composition\<close>

text \<open>
  Claim C9: for every command and every combination of the sudo, user and shell
  arguments, the command that is executed is the one the specification composes: the
  command itself when none of the three is requested, and otherwise the prefix
  (\<^verbatim>\<open>sudo -u <user> -S \<close> for a user, \<^verbatim>\<open>sudo -S \<close> for sudo without a user, nothing
  for a shell alone) followed by the shell, or \<^verbatim>\<open>$SHELL -c\<close>, and the quoted command.
\<close>

theorem run_command_composition:
  "run_command command sudo usr shell = spec_command command sudo usr shell"
  by (simp add: run_command_def spec_command_def spec_prefix_def)

end
